theory Spec2Isabelle
  imports Main "HOL-Library.AList"
begin

section \<open>The segment trie and the method router of simple-server\<close>

text \<open>
  Source: \<^verbatim>\<open>src/routing/routeTrie.ts\<close>, which holds the classes \<^verbatim>\<open>RouteTrieNode\<close>,
  \<^verbatim>\<open>RouteTrie\<close> and \<^verbatim>\<open>Router\<close>.

  Strings are \<^typ>\<open>string\<close>. A JavaScript \<^verbatim>\<open>Map\<close> is an association list read with
  \<^const>\<open>map_of\<close> and written with \<^const>\<open>AList.update\<close> (a new key goes to the end, an
  existing key keeps its place). The object \<^verbatim>\<open>params\<close> is a map from capture names to
  segments. An optional field (\<^verbatim>\<open>value?\<close>, \<^verbatim>\<open>dynamicSegment?\<close>, \<^verbatim>\<open>params?\<close>) is an
  \<^typ>\<open>'a option\<close>, \<^const>\<open>None\<close> standing for \<^verbatim>\<open>undefined\<close>.

  The field \<^verbatim>\<open>parent\<close> of a node is read by the getter \<^verbatim>\<open>fullPath\<close> only, which neither
  \<^verbatim>\<open>insert\<close> nor \<^verbatim>\<open>find\<close> calls; the tree below leaves it out. Nodes are reachable
  from their parent alone, so the in-place updates of \<^verbatim>\<open>insert\<close> are updates of the tree.
\<close>

subsection \<open>Errors\<close>

text \<open>
  The source throws \<^verbatim>\<open>Error\<close> objects told apart by their message; each constructor
  carries what its message interpolates:
  \<^item> \<open>ConflictingDynamicSegment p n\<close>:
    \<^verbatim>\<open>Cannot create route p. Route already has a dynamic segment with n.\<close>
  \<^item> \<open>DuplicateRoute p\<close>: \<^verbatim>\<open>Value already exists at p. A path can only map to one value.\<close>
  \<^item> \<open>UnsupportedMethod m\<close>: \<^verbatim>\<open>HTTP Method 'm' is not currently supported\<close>
\<close>

datatype error =
    ConflictingDynamicSegment string string
  | DuplicateRoute string
  | UnsupportedMethod string

subsection \<open>Strings\<close>

text \<open>\<^verbatim>\<open>s.split(sep)\<close> for a one-character separator: the empty string gives one empty piece.\<close>

fun split :: "char \<Rightarrow> string \<Rightarrow> string list" where
  "split sep [] = [[]]"
| "split sep (c # cs) =
    (if c = sep then [] # split sep cs
     else (case split sep cs of
             [] \<Rightarrow> [[c]]
           | w # ws \<Rightarrow> (c # w) # ws))"

text \<open>\<^verbatim>\<open>path.split('/').filter((part) => part)\<close>: a string is truthy when it is not empty.\<close>

definition parts_of :: "string \<Rightarrow> string list" where
  "parts_of p = filter (\<lambda>part. part \<noteq> []) (split (CHR ''/'') p)"

text \<open>\<^verbatim>\<open>part.replace(':', '')\<close> removes the first colon of the string, if there is one.\<close>

definition replace_colon :: "string \<Rightarrow> string" where
  "replace_colon part = remove1 (CHR '':'') part"

text \<open>
  \<^verbatim>\<open>method.toUpperCase()\<close> on the letters \<^verbatim>\<open>a\<close> to \<^verbatim>\<open>z\<close>; every other character of the
  model's alphabet is left as it is. The strings of the model are strings of 8-bit
  characters: a method spelled with letters outside ASCII that JavaScript maps to other
  letters (\<^verbatim>\<open>toUpperCase\<close> follows Unicode) is outside the model.
\<close>

definition toUpperCase_char :: "char \<Rightarrow> char" where
  "toUpperCase_char c =
    (case map_of (zip ''abcdefghijklmnopqrstuvwxyz'' ''ABCDEFGHIJKLMNOPQRSTUVWXYZ'') c of
       Some u \<Rightarrow> u
     | None \<Rightarrow> c)"

definition toUpperCase :: "string \<Rightarrow> string" where
  "toUpperCase s = map toUpperCase_char s"

subsection \<open>RouteTrieNode\<close>

datatype 'v RouteTrieNode =
  RouteTrieNode
    (path: string)
    (children: "(string \<times> 'v RouteTrieNode) list")
    (dynamicSegment: "'v RouteTrieNode option")
    (node_value: "'v option")

text \<open>The constructor as \<^verbatim>\<open>insert\<close> and \<^verbatim>\<open>RouteTrie\<close> call it, without a value.\<close>

definition new_RouteTrieNode :: "string \<Rightarrow> 'v RouteTrieNode" where
  "new_RouteTrieNode p = RouteTrieNode p [] None None"

text \<open>The three assignments of \<^verbatim>\<open>insert\<close> to a node.\<close>

fun set_dynamicSegment :: "'v RouteTrieNode \<Rightarrow> 'v RouteTrieNode \<Rightarrow> 'v RouteTrieNode" where
  "set_dynamicSegment d (RouteTrieNode p cs _ v) = RouteTrieNode p cs (Some d) v"

fun set_child :: "string \<Rightarrow> 'v RouteTrieNode \<Rightarrow> 'v RouteTrieNode \<Rightarrow> 'v RouteTrieNode" where
  "set_child k c (RouteTrieNode p cs d v) = RouteTrieNode p (AList.update k c cs) d v"

fun set_value :: "'v option \<Rightarrow> 'v RouteTrieNode \<Rightarrow> 'v RouteTrieNode" where
  "set_value w (RouteTrieNode p cs d _) = RouteTrieNode p cs d w"

text \<open>
  Truthiness of the field \<^verbatim>\<open>value?: T\<close>: \<^verbatim>\<open>undefined\<close> is falsy, and a present payload
  is judged by \<open>tr\<close>, the truthiness of the payload type \<^verbatim>\<open>T\<close>.
\<close>

fun truthy :: "('v \<Rightarrow> bool) \<Rightarrow> 'v option \<Rightarrow> bool" where
  "truthy tr None = False"
| "truthy tr (Some v) = tr v"

subsection \<open>RouteTrie\<close>

record 'v RouteTrie =
  root :: "'v RouteTrieNode"

definition new_RouteTrie :: "'v RouteTrie" where
  "new_RouteTrie = \<lparr> root = new_RouteTrieNode [] \<rparr>"

definition isRoot :: "string \<Rightarrow> bool" where
  "isRoot p \<longleftrightarrow> length p = 0 \<or> p = ''/''"

definition isDynamicPart :: "string \<Rightarrow> bool" where
  "isDynamicPart part \<longleftrightarrow> (case part of [] \<Rightarrow> False | c # _ \<Rightarrow> c = CHR '':'') \<or> part = ''*''"

text \<open>
  The loop of \<^verbatim>\<open>insert\<close> with the final test and assignment, from the node \<open>cur\<close> on the
  parts still to consume. It returns the outcome (\<open>Inl\<close> the error thrown, \<open>Inr ()\<close> a normal
  return) together with the subtree as the call leaves it; a node created before a
  \<^verbatim>\<open>throw\<close> stays in the tree.
\<close>

fun insert_loop ::
  "('v \<Rightarrow> bool) \<Rightarrow> string \<Rightarrow> string list \<Rightarrow> 'v option \<Rightarrow> 'v RouteTrieNode
    \<Rightarrow> (error + unit) \<times> 'v RouteTrieNode" where
  "insert_loop tr pth [] v cur =
    (if truthy tr (node_value cur) then (Inl (DuplicateRoute pth), cur)
     else (Inr (), set_value v cur))"
| "insert_loop tr pth (part # rest) v cur =
    (if isDynamicPart part then
       (let dynamicPart = replace_colon part in
        (case dynamicSegment cur of
           Some d \<Rightarrow>
             if path d \<noteq> dynamicPart then (Inl (ConflictingDynamicSegment pth (path d)), cur)
             else (case insert_loop tr pth rest v d of
                     (r, d') \<Rightarrow> (r, set_dynamicSegment d' cur))
         | None \<Rightarrow>
             (case insert_loop tr pth rest v (new_RouteTrieNode dynamicPart) of
                (r, n') \<Rightarrow> (r, set_dynamicSegment n' cur))))
     else
       (case map_of (children cur) part of
          Some c \<Rightarrow>
            (case insert_loop tr pth rest v c of
               (r, c') \<Rightarrow> (r, set_child part c' cur))
        | None \<Rightarrow>
            (case insert_loop tr pth rest v (new_RouteTrieNode part) of
               (r, n') \<Rightarrow> (r, set_child part n' cur))))"

text \<open>
  \<^verbatim>\<open>path = '/' + path\<close> under the test of \<^verbatim>\<open>insert\<close>: the path is empty or does not start with
  a slash. \<^verbatim>\<open>find\<close> tests \<^verbatim>\<open>path[0] !== '/'\<close> only, on a path that is not empty (the empty
  path has returned before as the root), which is the same there.
\<close>

definition with_slash :: "string \<Rightarrow> string" where
  "with_slash p = (case p of [] \<Rightarrow> CHR ''/'' # p
                   | c # _ \<Rightarrow> if c \<noteq> CHR ''/'' then CHR ''/'' # p else p)"

definition RouteTrie_insert ::
  "('v \<Rightarrow> bool) \<Rightarrow> string \<Rightarrow> 'v option \<Rightarrow> 'v RouteTrie \<Rightarrow> (error + unit) \<times> 'v RouteTrie" where
  "RouteTrie_insert tr p v t =
    (let p' = with_slash p;
         parts = parts_of p'
     in (case insert_loop tr p' parts v (root t) of
           (r, root') \<Rightarrow> (r, t\<lparr> root := root' \<rparr>)))"

record 'v RouteTrieFindResult =
  node :: "'v RouteTrieNode"
  params :: "(string \<rightharpoonup> string) option"

text \<open>
  The assignment \<^verbatim>\<open>params[name] = part\<close> on the plain object \<^verbatim>\<open>params\<close> (created as \<^verbatim>\<open>{}\<close>),
  whose own properties the map holds. Under every name but one it writes an own property.
  Under the name \<^verbatim>\<open>__proto__\<close> it calls the setter that the object inherits from
  \<^verbatim>\<open>Object.prototype\<close>, which does nothing when the value is a string: the object keeps
  its own properties as they are.
\<close>

definition params_set :: "(string \<rightharpoonup> string) \<Rightarrow> string \<Rightarrow> string \<Rightarrow> (string \<rightharpoonup> string)" where
  "params_set ps name part = (if name = ''__proto__'' then ps else ps(name \<mapsto> part))"

text \<open>The loop of \<^verbatim>\<open>find\<close>: \<open>None\<close> is the \<^verbatim>\<open>return null\<close> inside the loop.\<close>

fun find_loop ::
  "string list \<Rightarrow> (string \<rightharpoonup> string) \<Rightarrow> 'v RouteTrieNode
    \<Rightarrow> ('v RouteTrieNode \<times> (string \<rightharpoonup> string)) option" where
  "find_loop [] ps cur = Some (cur, ps)"
| "find_loop (part # rest) ps cur =
    (case map_of (children cur) part of
       Some c \<Rightarrow> find_loop rest ps c
     | None \<Rightarrow>
         (case dynamicSegment cur of
            Some d \<Rightarrow> find_loop rest (params_set ps (path d) part) d
          | None \<Rightarrow> None))"

definition RouteTrie_find :: "string \<Rightarrow> 'v RouteTrie \<Rightarrow> 'v RouteTrieFindResult option" where
  "RouteTrie_find p t =
    (if isRoot p then Some \<lparr> node = root t, params = None \<rparr>
     else (case find_loop (parts_of (with_slash p)) Map.empty (root t) of
             None \<Rightarrow> None
           | Some (n, ps) \<Rightarrow> Some \<lparr> node = n, params = Some ps \<rparr>))"

subsection \<open>Router\<close>

text \<open>The keys of the enum \<^verbatim>\<open>HttpMethod\<close>, in the order \<^verbatim>\<open>for ... in\<close> visits them.\<close>

definition HttpMethod :: "string list" where
  "HttpMethod = [''GET'', ''PUT'', ''POST'', ''DELETE'', ''HEAD'', ''PATCH'', ''OPTIONS'',
                 ''TRACE'', ''CONNECT'']"

record 'h Router =
  routeMethodMap :: "(string \<times> 'h RouteTrie) list"

definition new_Router :: "'h Router" where
  "new_Router =
    \<lparr> routeMethodMap = foldl (\<lambda>m method. AList.update method new_RouteTrie m) [] HttpMethod \<rparr>"

text \<open>
  A handler is a function (\<^verbatim>\<open>RouteHandler<T> = (args: T) => void\<close>), and every function
  is truthy.
\<close>

definition handler_truthy :: "'h \<Rightarrow> bool" where
  "handler_truthy h = True"

definition Router_map ::
  "string \<Rightarrow> string \<Rightarrow> 'h \<Rightarrow> 'h Router \<Rightarrow> (error + unit) \<times> 'h Router" where
  "Router_map method p handler r =
    (let httpMethod = toUpperCase method in
     (case map_of (routeMethodMap r) httpMethod of
        None \<Rightarrow> (Inl (UnsupportedMethod method), r)
      | Some trie \<Rightarrow>
          (case RouteTrie_insert handler_truthy p (Some handler) trie of
             (res, trie') \<Rightarrow>
               (res, r\<lparr> routeMethodMap := AList.update httpMethod trie' (routeMethodMap r) \<rparr>))))"

record 'h RouterFindResult =
  handler :: 'h
  pathParams :: "(string \<rightharpoonup> string) option"

definition Router_find ::
  "string \<Rightarrow> string \<Rightarrow> 'h Router \<Rightarrow> error + 'h RouterFindResult option" where
  "Router_find method p r =
    (let httpMethod = toUpperCase method in
     (case map_of (routeMethodMap r) httpMethod of
        None \<Rightarrow> Inl (UnsupportedMethod method)
      | Some trie \<Rightarrow>
          (case RouteTrie_find p trie of
             None \<Rightarrow> Inr None
           | Some result \<Rightarrow>
               (case node_value (node result) of
                  None \<Rightarrow> Inr None
                | Some h \<Rightarrow>
                    if handler_truthy h
                    then Inr (Some \<lparr> handler = h, pathParams = params result \<rparr>)
                    else Inr None))))"

subsection \<open>Notions used to state the properties\<close>

text \<open>
  The node at which an insertion of \<open>parts\<close> stands after its loop when every node on the
  way exists already: a dynamic part goes to the dynamic child of the same capture name,
  a literal part to the child under that key.
\<close>

fun locate :: "string list \<Rightarrow> 'v RouteTrieNode \<Rightarrow> 'v RouteTrieNode option" where
  "locate [] cur = Some cur"
| "locate (part # rest) cur =
    (if isDynamicPart part then
       (case dynamicSegment cur of
          Some d \<Rightarrow> if path d = replace_colon part then locate rest d else None
        | None \<Rightarrow> None)
     else
       (case map_of (children cur) part of
          Some c \<Rightarrow> locate rest c
        | None \<Rightarrow> None))"

text \<open>
  The mapping a lookup builds when it follows the route \<open>parts\<close> on the segments \<open>segs\<close>:
  one assignment \<^verbatim>\<open>params[name] = part\<close> per dynamic part, in order, a later one replacing an
  earlier one under the same name.
\<close>

fun captures :: "string list \<Rightarrow> string list \<Rightarrow> (string \<rightharpoonup> string) \<Rightarrow> (string \<rightharpoonup> string)" where
  "captures (p # ps) (s # ss) m =
     captures ps ss (if isDynamicPart p then params_set m (replace_colon p) s else m)"
| "captures _ _ m = m"

text \<open>
  The lookup of \<open>segs\<close> from \<open>cur\<close> goes the way of the route \<open>parts\<close>: a segment under a
  literal part is that part, and a segment under a dynamic part is not the key of a
  literal child of the node reached.
\<close>

fun follows :: "'v RouteTrieNode \<Rightarrow> string list \<Rightarrow> string list \<Rightarrow> bool" where
  "follows cur [] [] = True"
| "follows cur (p # ps) (s # ss) =
    (if isDynamicPart p then
       map_of (children cur) s = None \<and>
       (case dynamicSegment cur of Some d \<Rightarrow> follows d ps ss | None \<Rightarrow> False)
     else
       s = p \<and> (case map_of (children cur) p of Some c \<Rightarrow> follows c ps ss | None \<Rightarrow> False))"
| "follows cur _ _ = False"

text \<open>No key of a \<^verbatim>\<open>children\<close> map in the subtree is a dynamic part.\<close>

fun no_dynamic_keys :: "'v RouteTrieNode \<Rightarrow> bool" where
  "no_dynamic_keys (RouteTrieNode p cs d v) =
    (list_all (\<lambda>kc. \<not> isDynamicPart (fst kc) \<and> no_dynamic_keys (snd kc)) cs \<and>
     (case d of None \<Rightarrow> True | Some n \<Rightarrow> no_dynamic_keys n))"


text \<open>
  A sequence of calls of \<^verbatim>\<open>insert\<close> (of \<^verbatim>\<open>map\<close> below) on one trie (router), each call
  starting from what the call before left, whether it returned or threw.
\<close>

definition RouteTrie_inserts ::
  "('v \<Rightarrow> bool) \<Rightarrow> (string \<times> 'v option) list \<Rightarrow> 'v RouteTrie \<Rightarrow> 'v RouteTrie" where
  "RouteTrie_inserts tr calls t =
    foldl (\<lambda>t call. snd (RouteTrie_insert tr (fst call) (snd call) t)) t calls"

text \<open>\<^verbatim>\<open>this.routeMethodMap.get(method.toUpperCase())\<close>, as both methods of the router start.\<close>

definition trie_for :: "string \<Rightarrow> 'h Router \<Rightarrow> 'h RouteTrie option" where
  "trie_for method r = map_of (routeMethodMap r) (toUpperCase method)"

definition Router_maps :: "(string \<times> string \<times> 'h) list \<Rightarrow> 'h Router \<Rightarrow> 'h Router" where
  "Router_maps calls r =
    foldl (\<lambda>r call. snd (Router_map (fst call) (fst (snd call)) (snd (snd call)) r)) r calls"

text \<open>The route \<open>(method, p)\<close> ends at a node of the router that holds the handler \<open>h\<close>.\<close>

definition registered :: "string \<Rightarrow> string \<Rightarrow> 'h \<Rightarrow> 'h Router \<Rightarrow> bool" where
  "registered method p h r =
    (case trie_for method r of
       None \<Rightarrow> False
     | Some t \<Rightarrow>
         (case locate (parts_of (with_slash p)) (root t) of
            None \<Rightarrow> False
          | Some n \<Rightarrow> node_value n = Some h))"

text \<open>The object \<^verbatim>\<open>{}\<close>: the mapping without a key.\<close>

definition empty_params :: "string \<rightharpoonup> string" where
  "empty_params = Map.empty"

section \<open>Properties\<close>

subsection \<open>Field reads after an assignment\<close>

lemma sel_set_dynamicSegment [simp]:
  "path (set_dynamicSegment d cur) = path cur"
  "children (set_dynamicSegment d cur) = children cur"
  "dynamicSegment (set_dynamicSegment d cur) = Some d"
  "node_value (set_dynamicSegment d cur) = node_value cur"
  by (cases cur; simp)+

lemma sel_set_child [simp]:
  "path (set_child k c cur) = path cur"
  "children (set_child k c cur) = AList.update k c (children cur)"
  "dynamicSegment (set_child k c cur) = dynamicSegment cur"
  "node_value (set_child k c cur) = node_value cur"
  by (cases cur; simp)+

lemma sel_set_value [simp]:
  "path (set_value w cur) = path cur"
  "children (set_value w cur) = children cur"
  "dynamicSegment (set_value w cur) = dynamicSegment cur"
  "node_value (set_value w cur) = w"
  by (cases cur; simp)+

lemma sel_new_RouteTrieNode [simp]:
  "path (new_RouteTrieNode p) = p"
  "children (new_RouteTrieNode p) = []"
  "dynamicSegment (new_RouteTrieNode p) = None"
  "node_value (new_RouteTrieNode p) = None"
  by (simp_all add: new_RouteTrieNode_def)

lemma set_dynamicSegment_same: "dynamicSegment cur = Some d \<Longrightarrow> set_dynamicSegment d cur = cur"
  by (cases cur) simp

lemma set_child_same: "map_of (children cur) k = Some c \<Longrightarrow> set_child k c cur = cur"
  by (cases cur) (simp add: update_triv)

lemma insert_loop_fresh: "fst (insert_loop tr pth parts v (new_RouteTrieNode p)) = Inr ()"
  by (induction parts arbitrary: p) (simp_all add: Let_def case_prod_unfold)

lemma insert_loop_error_unchanged:
  "fst (insert_loop tr pth parts v cur) = Inl e \<Longrightarrow> snd (insert_loop tr pth parts v cur) = cur"
proof (induction parts arbitrary: cur)
  case Nil
  then show ?case by (simp split: if_splits)
next
  case (Cons part rest)
  show ?case
  proof (cases "isDynamicPart part")
    case True
    show ?thesis
    proof (cases "dynamicSegment cur")
      case None
      with True Cons.prems insert_loop_fresh [of tr pth rest v "replace_colon part"]
      show ?thesis by (simp add: Let_def split: prod.splits)
    next
      case (Some d)
      with True Cons.prems Cons.IH [of d] show ?thesis
        by (auto simp add: Let_def set_dynamicSegment_same split: prod.splits if_splits)
    qed
  next
    case False
    show ?thesis
    proof (cases "map_of (children cur) part")
      case None
      with False Cons.prems insert_loop_fresh [of tr pth rest v part]
      show ?thesis by (simp add: Let_def split: prod.splits)
    next
      case (Some c)
      with False Cons.prems Cons.IH [of c] show ?thesis
        by (auto simp add: Let_def set_child_same split: prod.splits if_splits)
    qed
  qed
qed

subsection \<open>The loop of insert and the node a route ends at\<close>

lemma path_insert_loop [simp]: "path (snd (insert_loop tr pth parts v cur)) = path cur"
  by (cases parts) (simp_all add: Let_def case_prod_unfold split: option.splits)

lemma node_value_insert_loop_Cons [simp]:
  "node_value (snd (insert_loop tr pth (q # qs) v cur)) = node_value cur"
  by (simp add: Let_def case_prod_unfold split: option.splits)

lemma locate_after_insert:
  "fst (insert_loop tr pth parts v cur) = Inr () \<Longrightarrow>
   \<exists>n. locate parts (snd (insert_loop tr pth parts v cur)) = Some n \<and> node_value n = v"
proof (induction parts arbitrary: cur)
  case Nil
  then show ?case by (simp split: if_splits)
next
  case (Cons part rest)
  show ?case
  proof (cases "isDynamicPart part")
    case True
    show ?thesis
    proof (cases "dynamicSegment cur")
      case None
      with True Cons.prems Cons.IH [of "new_RouteTrieNode (replace_colon part)"]
      show ?thesis 
        by (auto simp add: Let_def case_prod_unfold update_conv' split: if_splits)
    next
      case (Some d)
      with True Cons.prems Cons.IH [of d] show ?thesis
        by (auto simp add: Let_def case_prod_unfold update_conv' split: if_splits)
    qed
  next
    case False
    show ?thesis
    proof (cases "map_of (children cur) part")
      case None
      with False Cons.prems Cons.IH [of "new_RouteTrieNode part"]
      show ?thesis 
        by (auto simp add: Let_def case_prod_unfold update_conv' split: if_splits)
    next
      case (Some c)
      with False Cons.prems Cons.IH [of c] show ?thesis
        by (auto simp add: Let_def case_prod_unfold update_conv' split: if_splits)
    qed
  qed
qed

lemma insert_loop_append:
  "locate pre cur = Some n \<Longrightarrow>
   fst (insert_loop tr pth (pre @ rest) v cur) = fst (insert_loop tr pth rest v n)"
proof (induction pre arbitrary: cur)
  case Nil
  then show ?case by simp
next
  case (Cons part pre)
  then show ?case
    by (auto simp add: Let_def case_prod_unfold split: if_splits option.splits)
qed

lemma insert_loop_duplicate:
  assumes "locate parts cur = Some n" and "truthy tr (node_value n)"
  shows "insert_loop tr pth parts w cur = (Inl (DuplicateRoute pth), cur)"
proof -
  from assms insert_loop_append [of parts cur n tr pth "[]" w]
  have "fst (insert_loop tr pth parts w cur) = Inl (DuplicateRoute pth)" by simp
  with insert_loop_error_unchanged [of tr pth parts w cur] show ?thesis
    by (simp add: prod_eq_iff)
qed

lemma find_loop_follows:
  "locate parts cur = Some n \<Longrightarrow> follows cur parts segs \<Longrightarrow>
   find_loop segs ps cur = Some (n, captures parts segs ps)"
proof (induction parts arbitrary: cur segs ps)
  case Nil
  then show ?case by (cases segs) simp_all
next
  case (Cons part parts)
  then show ?case
    by (cases segs) (auto split: if_split_asm option.splits)
qed

lemma locate_persists:
  "locate parts cur = Some n \<Longrightarrow> truthy tr (node_value n) \<Longrightarrow>
   \<exists>n'. locate parts (snd (insert_loop tr pth qs w cur)) = Some n' \<and> node_value n' = node_value n"
proof (induction parts arbitrary: cur qs)
  case Nil
  then show ?case
    by (cases qs) (auto simp add: Let_def case_prod_unfold split: option.splits)
next
  case (Cons part parts)
  show ?case
  proof (cases qs)
    case Nil
    with Cons.prems show ?thesis by (auto split: if_splits option.splits)
  next
    case (Cons q qs')
    with Cons.prems Cons.IH show ?thesis
      by (auto simp add: Let_def case_prod_unfold update_conv' split: if_split_asm option.splits)
  qed
qed

subsection \<open>Paths, error paths and literal keys\<close>

lemma parts_of_with_slash [simp]: "parts_of (with_slash p) = parts_of p"
  by (simp add: parts_of_def with_slash_def split: list.splits)

lemma with_slash_idem [simp]: "with_slash (with_slash p) = with_slash p"
  by (simp add: with_slash_def split: list.splits)

lemma parts_of_isRoot: "isRoot p \<Longrightarrow> parts_of p = []"
  by (auto simp add: isRoot_def parts_of_def)


lemma no_dynamic_keys_sel:
  "no_dynamic_keys n \<longleftrightarrow>
    (\<forall>(k, c) \<in> set (children n). \<not> isDynamicPart k \<and> no_dynamic_keys c) \<and>
    (\<forall>d. dynamicSegment n = Some d \<longrightarrow> no_dynamic_keys d)"
  by (cases n) (auto simp add: list_all_iff split: option.splits)

lemma no_dynamic_keys_new [simp]: "no_dynamic_keys (new_RouteTrieNode p)"
  by (simp add: new_RouteTrieNode_def)

lemma set_AList_update_subset:
  "set (AList.update k v al) \<subseteq> insert (k, v) (set al)"
  by (induction al) auto

lemma no_dynamic_keys_set_child:
  "no_dynamic_keys cur \<Longrightarrow> no_dynamic_keys c \<Longrightarrow> \<not> isDynamicPart k \<Longrightarrow>
   no_dynamic_keys (set_child k c cur)"
proof -
  assume a: "no_dynamic_keys cur" "no_dynamic_keys c" "\<not> isDynamicPart k"
  have "set (AList.update k c (children cur)) \<subseteq> insert (k, c) (set (children cur))"
    by (rule set_AList_update_subset)
  with a show ?thesis
    by (subst no_dynamic_keys_sel, subst (asm) no_dynamic_keys_sel) auto
qed

lemma no_dynamic_keys_set_dynamicSegment:
  "no_dynamic_keys cur \<Longrightarrow> no_dynamic_keys d \<Longrightarrow> no_dynamic_keys (set_dynamicSegment d cur)"
  by (cases cur) simp

lemma no_dynamic_keys_set_value:
  "no_dynamic_keys cur \<Longrightarrow> no_dynamic_keys (set_value w cur)"
  by (cases cur) simp

lemma no_dynamic_keys_child:
  "no_dynamic_keys cur \<Longrightarrow> map_of (children cur) k = Some c \<Longrightarrow>
   no_dynamic_keys c \<and> \<not> isDynamicPart k"
  by (subst (asm) no_dynamic_keys_sel) (auto dest: map_of_SomeD)

lemma no_dynamic_keys_dynamicSegment:
  "no_dynamic_keys cur \<Longrightarrow> dynamicSegment cur = Some d \<Longrightarrow> no_dynamic_keys d"
  by (subst (asm) no_dynamic_keys_sel) auto

lemma no_dynamic_keys_insert_loop:
  "no_dynamic_keys cur \<Longrightarrow> no_dynamic_keys (snd (insert_loop tr pth parts v cur))"
proof (induction parts arbitrary: cur)
  case Nil
  then show ?case by (simp add: no_dynamic_keys_set_value)
next
  case (Cons part rest)
  show ?case
  proof (cases "isDynamicPart part")
    case True
    show ?thesis
    proof (cases "dynamicSegment cur")
      case None
      with True Cons.prems Cons.IH [of "new_RouteTrieNode (replace_colon part)"]
      show ?thesis
        by (simp add: Let_def case_prod_unfold no_dynamic_keys_set_dynamicSegment)
    next
      case (Some d)
      with Cons.prems have "no_dynamic_keys d" by (simp add: no_dynamic_keys_dynamicSegment)
      with True Some Cons.prems Cons.IH [of d] show ?thesis
        by (simp add: Let_def case_prod_unfold no_dynamic_keys_set_dynamicSegment)
    qed
  next
    case False
    show ?thesis
    proof (cases "map_of (children cur) part")
      case None
      with False Cons.prems Cons.IH [of "new_RouteTrieNode part"]
      show ?thesis
        by (simp add: Let_def case_prod_unfold no_dynamic_keys_set_child)
    next
      case (Some c)
      with Cons.prems have "no_dynamic_keys c" by (simp add: no_dynamic_keys_child)
      with False Some Cons.prems Cons.IH [of c] show ?thesis
        by (simp add: Let_def case_prod_unfold no_dynamic_keys_set_child)
    qed
  qed
qed

lemma follows_self:
  "no_dynamic_keys cur \<Longrightarrow> locate parts cur = Some n \<Longrightarrow> follows cur parts parts"
proof (induction parts arbitrary: cur)
  case Nil
  then show ?case by simp
next
  case (Cons part rest)
  show ?case
  proof (cases "isDynamicPart part")
    case True
    with Cons.prems have "map_of (children cur) part = None"
      using no_dynamic_keys_child [of cur part] by (cases "map_of (children cur) part") auto
    with True Cons show ?thesis
      by (auto dest: no_dynamic_keys_dynamicSegment split: option.splits if_split_asm)
  next
    case False
    with Cons show ?thesis
      by (auto dest: no_dynamic_keys_child split: option.splits if_split_asm)
  qed
qed

subsection \<open>The trie, the router and the routes registered\<close>

lemma RouteTrie_insert_error_unchanged:
  "fst (RouteTrie_insert tr p v t) = Inl e \<Longrightarrow> snd (RouteTrie_insert tr p v t) = t"
  using insert_loop_error_unchanged [of tr "with_slash p" "parts_of p" v "root t" e]
  by (simp add: RouteTrie_insert_def Let_def case_prod_unfold)

lemma fst_RouteTrie_insert:
  "fst (RouteTrie_insert tr p v t) = fst (insert_loop tr (with_slash p) (parts_of p) v (root t))"
  by (simp add: RouteTrie_insert_def Let_def case_prod_unfold)

lemma root_RouteTrie_insert:
  "root (snd (RouteTrie_insert tr p v t)) =
    snd (insert_loop tr (with_slash p) (parts_of p) v (root t))"
  by (simp add: RouteTrie_insert_def Let_def case_prod_unfold)

lemma follows_Nil: "follows cur parts [] \<Longrightarrow> parts = []"
  by (cases parts) simp_all

lemma RouteTrie_find_follows:
  assumes "locate (parts_of p) (root t) = Some n"
    and "follows (root t) (parts_of p) (parts_of q)"
  shows "RouteTrie_find q t =
    Some \<lparr> node = n,
           params = (if isRoot q then None
                     else Some (captures (parts_of p) (parts_of q) Map.empty)) \<rparr>"
proof (cases "isRoot q")
  case True
  with assms(2) have "parts_of p = []" by (simp add: parts_of_isRoot follows_Nil)
  with assms(1) True show ?thesis by (simp add: RouteTrie_find_def)
next
  case False
  with find_loop_follows [OF assms, of Map.empty] show ?thesis
    by (simp add: RouteTrie_find_def)
qed

lemma no_dynamic_keys_RouteTrie_insert:
  "no_dynamic_keys (root t) \<Longrightarrow> no_dynamic_keys (root (snd (RouteTrie_insert tr p v t)))"
  by (simp add: root_RouteTrie_insert no_dynamic_keys_insert_loop)

lemma no_dynamic_keys_RouteTrie_inserts:
  "no_dynamic_keys (root t) \<Longrightarrow> no_dynamic_keys (root (RouteTrie_inserts tr calls t))"
  by (induction calls arbitrary: t)
     (simp_all add: RouteTrie_inserts_def no_dynamic_keys_RouteTrie_insert)

lemma no_dynamic_keys_new_RouteTrie [simp]: "no_dynamic_keys (root new_RouteTrie)"
  by (simp add: new_RouteTrie_def)

lemma keys_AList_update:
  "map_of al k = Some v \<Longrightarrow> map fst (AList.update k w al) = map fst al"
  by (induction al) (auto split: if_split_asm)

lemma keys_new_Router: "map fst (routeMethodMap new_Router) = HttpMethod"
  by (simp add: new_Router_def HttpMethod_def)

lemma keys_Router_map:
  "map fst (routeMethodMap (snd (Router_map m p h r))) = map fst (routeMethodMap r)"
  by (simp add: Router_map_def Let_def case_prod_unfold keys_AList_update split: option.splits)

lemma keys_Router_maps:
  "map fst (routeMethodMap (Router_maps calls r)) = map fst (routeMethodMap r)"
  by (induction calls arbitrary: r) (simp_all add: Router_maps_def keys_Router_map)

lemma trie_for_keys:
  "map fst (routeMethodMap r) = HttpMethod \<Longrightarrow>
   (trie_for m r = None) = (toUpperCase m \<notin> set HttpMethod)"
  by (simp add: trie_for_def map_of_eq_None_iff flip: set_map)

lemma trie_for_Router_map:
  "trie_for m' (snd (Router_map m p h r)) =
    (if toUpperCase m' = toUpperCase m
     then map_option (\<lambda>t. snd (RouteTrie_insert handler_truthy p (Some h) t)) (trie_for m r)
     else trie_for m' r)"
  by (simp add: Router_map_def trie_for_def Let_def case_prod_unfold update_conv'
      split: option.splits)

lemma fst_Router_map:
  "fst (Router_map m p h r) =
    (case trie_for m r of
       None \<Rightarrow> Inl (UnsupportedMethod m)
     | Some t \<Rightarrow> fst (RouteTrie_insert handler_truthy p (Some h) t))"
  by (simp add: Router_map_def trie_for_def Let_def case_prod_unfold split: option.splits)

lemma Router_find_trie_for:
  "Router_find m p r =
    (case trie_for m r of
       None \<Rightarrow> Inl (UnsupportedMethod m)
     | Some t \<Rightarrow>
         (case RouteTrie_find p t of
            None \<Rightarrow> Inr None
          | Some res \<Rightarrow>
              (case node_value (node res) of
                 None \<Rightarrow> Inr None
               | Some h \<Rightarrow> Inr (Some \<lparr> handler = h, pathParams = params res \<rparr>))))"
  by (simp add: Router_find_def trie_for_def Let_def handler_truthy_def split: option.splits)

lemma Router_map_error_unchanged:
  assumes "fst (Router_map m p h r) = Inl e"
  shows "snd (Router_map m p h r) = r"
proof (cases "map_of (routeMethodMap r) (toUpperCase m)")
  case None
  then show ?thesis by (simp add: Router_map_def)
next
  case (Some t)
  with assms have "fst (RouteTrie_insert handler_truthy p (Some h) t) = Inl e"
    by (simp add: fst_Router_map trie_for_def)
  then have "snd (RouteTrie_insert handler_truthy p (Some h) t) = t"
    by (rule RouteTrie_insert_error_unchanged)
  with Some show ?thesis
    by (simp add: Router_map_def Let_def case_prod_unfold update_triv)
qed

lemma registered_after_map:
  assumes "fst (Router_map m p h r) = Inr ()"
  shows "registered m p h (snd (Router_map m p h r))"
proof (cases "trie_for m r")
  case None
  with assms show ?thesis by (simp add: fst_Router_map)
next
  case (Some t)
  with assms have "fst (insert_loop handler_truthy (with_slash p) (parts_of p) (Some h) (root t)) = Inr ()"
    by (simp add: fst_Router_map fst_RouteTrie_insert)
  from locate_after_insert [OF this] Some show ?thesis
    by (auto simp add: registered_def trie_for_Router_map root_RouteTrie_insert)
qed

lemma registered_Router_map:
  assumes "registered m p h r"
  shows "registered m p h (snd (Router_map m' p' h' r))"
proof (cases "toUpperCase m = toUpperCase m'")
  case False
  with assms show ?thesis by (simp add: registered_def trie_for_Router_map)
next
  case True
  from assms obtain t n where t: "trie_for m r = Some t"
    and n: "locate (parts_of p) (root t) = Some n" "node_value n = Some h"
    by (auto simp add: registered_def split: option.splits)
  from n have "truthy handler_truthy (node_value n)" by (simp add: handler_truthy_def)
  moreover from t True have "trie_for m' r = Some t" by (simp add: trie_for_def)
  ultimately show ?thesis
    using locate_persists [OF n(1), of handler_truthy "with_slash p'" "parts_of p'" "Some h'"]
      n(2) t True
    by (auto simp add: registered_def trie_for_Router_map root_RouteTrie_insert)
qed

lemma registered_Router_maps:
  "registered m p h r \<Longrightarrow> registered m p h (Router_maps calls r)"
  by (induction calls arbitrary: r) (simp_all add: Router_maps_def registered_Router_map)

lemma registered_duplicate:
  assumes "registered m p h r" and "toUpperCase m' = toUpperCase m"
    and "parts_of p' = parts_of p"
  shows "Router_map m' p' h' r = (Inl (DuplicateRoute (with_slash p')), r)"
proof -
  from assms(1) obtain t n where t: "trie_for m r = Some t"
    and n: "locate (parts_of p) (root t) = Some n" "node_value n = Some h"
    by (auto simp add: registered_def split: option.splits)
  from n have "truthy handler_truthy (node_value n)" by (simp add: handler_truthy_def)
  from insert_loop_duplicate [OF n(1) this, of "with_slash p'" "Some h'"] assms(2,3) t
  have "fst (Router_map m' p' h' r) = Inl (DuplicateRoute (with_slash p'))"
    by (simp add: fst_Router_map fst_RouteTrie_insert trie_for_def [of m'] flip: trie_for_def [of m])
  with Router_map_error_unchanged [of m' p' h' r] show ?thesis
    by (simp add: prod_eq_iff)
qed

lemma registered_find:
  assumes "registered m p h r" and "trie_for m r = Some t"
    and "follows (root t) (parts_of p) (parts_of q)"
  shows "Router_find m q r =
    Inr (Some \<lparr> handler = h,
                pathParams = (if isRoot q then None
                              else Some (captures (parts_of p) (parts_of q) Map.empty)) \<rparr>)"
proof -
  from assms(1,2) obtain n where n: "locate (parts_of p) (root t) = Some n" "node_value n = Some h"
    by (auto simp add: registered_def split: option.splits)
  from RouteTrie_find_follows [OF n(1) assms(3)] n(2) assms(2) show ?thesis
    by (simp add: Router_find_trie_for)
qed

subsection \<open>Running the router on concrete strings\<close>

text \<open>The definitions that a run of the router on concrete strings unfolds.\<close>

lemmas router_eval =
  Router_map_def Router_find_def Router_maps_def new_Router_def HttpMethod_def
  toUpperCase_def toUpperCase_char_def RouteTrie_insert_def RouteTrie_find_def
  new_RouteTrie_def new_RouteTrieNode_def with_slash_def parts_of_def isDynamicPart_def
  isRoot_def replace_colon_def handler_truthy_def trie_for_def params_set_def Let_def

subsection \<open>The errors of an insertion\<close>

lemma insert_loop_errors:
  "fst (insert_loop tr pth parts v cur) = Inl e \<Longrightarrow>
   e = DuplicateRoute pth \<or> (\<exists>n. e = ConflictingDynamicSegment pth n)"
proof (induction parts arbitrary: cur)
  case Nil
  then show ?case by (simp split: if_split_asm)
next
  case (Cons part rest)
  then show ?case
    by (auto simp add: Let_def case_prod_unfold insert_loop_fresh
        split: if_split_asm option.splits)
qed

lemma Router_map_errors:
  assumes "fst (Router_map m p h r) = Inl e"
  shows "(trie_for m r = None \<and> e = UnsupportedMethod m) \<or>
         (trie_for m r \<noteq> None \<and>
          (e = DuplicateRoute (with_slash p) \<or>
           (\<exists>n. e = ConflictingDynamicSegment (with_slash p) n)))"
proof (cases "trie_for m r")
  case None
  with assms show ?thesis by (simp add: fst_Router_map)
next
  case (Some t)
  with assms insert_loop_errors [of handler_truthy "with_slash p" "parts_of p" "Some h" "root t" e]
  show ?thesis by (simp add: fst_Router_map fst_RouteTrie_insert)
qed

lemma locate_append: "locate pre cur = Some n \<Longrightarrow> locate (pre @ xs) cur = locate xs n"
  by (induction pre arbitrary: cur) (auto split: option.splits if_split_asm)

lemma insert_loop_duplicate_located:
  "fst (insert_loop tr pth parts v cur) = Inl (DuplicateRoute q) \<Longrightarrow>
   \<exists>n. locate parts cur = Some n \<and> truthy tr (node_value n)"
proof (induction parts arbitrary: cur)
  case Nil
  then show ?case by (simp split: if_split_asm)
next
  case (Cons part rest)
  then show ?case
    by (auto simp add: Let_def case_prod_unfold insert_loop_fresh
        split: if_split_asm option.splits)
qed

lemma RouteTrie_insert_located:
  assumes "fst (RouteTrie_insert tr p v t) = Inr ()"
  shows "\<exists>n. locate (parts_of p) (root (snd (RouteTrie_insert tr p v t))) = Some n \<and>
             node_value n = v"
  using assms locate_after_insert [of tr "with_slash p" "parts_of p" v "root t"]
  by (simp add: fst_RouteTrie_insert root_RouteTrie_insert)

lemma RouteTrie_insert_falsy:
  assumes "locate (parts_of p) (root t) = Some n" and "\<not> truthy tr (node_value n)"
  shows "fst (RouteTrie_insert tr p v t) = Inr ()"
  using assms insert_loop_append [of "parts_of p" "root t" n tr "with_slash p" "[]" v]
  by (simp add: fst_RouteTrie_insert)

lemma Router_find_falsy:
  assumes "trie_for m r = Some t" and "no_dynamic_keys (root t)"
    and "locate (parts_of p) (root t) = Some n" and "node_value n = None"
  shows "Router_find m p r = Inr None"
proof -
  from assms(2,3) have "follows (root t) (parts_of p) (parts_of p)" by (rule follows_self)
  from RouteTrie_find_follows [OF assms(3) this] assms(1,4) show ?thesis
    by (simp add: Router_find_trie_for)
qed

subsection \<open>The mapping of the captures\<close>

lemma captures_other:
  "\<forall>x \<in> set parts. isDynamicPart x \<longrightarrow> replace_colon x \<noteq> k \<Longrightarrow>
   captures parts segs m k = m k"
proof (induction parts arbitrary: segs m)
  case Nil
  then show ?case by simp
next
  case (Cons part parts)
  then show ?case by (cases segs) (auto simp add: params_set_def)
qed

lemma captures_no_dynamic:
  "list_all (\<lambda>x. \<not> isDynamicPart x) parts \<Longrightarrow> captures parts segs m = m"
proof (induction parts arbitrary: segs m)
  case Nil
  then show ?case by simp
next
  case (Cons part parts)
  then show ?case by (cases segs) simp_all
qed

lemma captures_nth:
  "length parts = length segs \<Longrightarrow> i < length parts \<Longrightarrow> isDynamicPart (parts ! i) \<Longrightarrow>
   (\<forall>j. i < j \<and> j < length parts \<and> isDynamicPart (parts ! j) \<longrightarrow>
        replace_colon (parts ! j) \<noteq> replace_colon (parts ! i)) \<Longrightarrow>
   replace_colon (parts ! i) \<noteq> ''__proto__'' \<Longrightarrow>
   captures parts segs m (replace_colon (parts ! i)) = Some (segs ! i)"
proof (induction parts arbitrary: segs i m)
  case Nil
  then show ?case by simp
next
  case (Cons part parts)
  from Cons.prems(1) obtain s ss where segs: "segs = s # ss" by (cases segs) auto
  show ?case
  proof (cases i)
    case 0
    have "\<forall>x \<in> set parts. isDynamicPart x \<longrightarrow> replace_colon x \<noteq> replace_colon part"
    proof (intro ballI impI)
      fix x assume "x \<in> set parts" "isDynamicPart x"
      then obtain j where "j < length parts" "parts ! j = x" by (auto simp add: in_set_conv_nth)
      with Cons.prems(4) [rule_format, of "Suc j"] 0 \<open>isDynamicPart x\<close>
      show "replace_colon x \<noteq> replace_colon part" by simp
    qed
    from captures_other [OF this] 0 Cons.prems(3,5) segs show ?thesis
      by (simp add: params_set_def)
  next
    case (Suc i')
    have "\<forall>j. i' < j \<and> j < length parts \<and> isDynamicPart (parts ! j) \<longrightarrow>
        replace_colon (parts ! j) \<noteq> replace_colon (parts ! i')"
    proof (intro allI impI)
      fix j assume "i' < j \<and> j < length parts \<and> isDynamicPart (parts ! j)"
      with Cons.prems(4) [rule_format, of "Suc j"] Suc
      show "replace_colon (parts ! j) \<noteq> replace_colon (parts ! i')" by simp
    qed
    with Cons.IH [of ss i'] Cons.prems(1,2,3,5) Suc segs show ?thesis by simp
  qed
qed

lemma captures_proto: "captures parts segs m ''__proto__'' = m ''__proto__''"
proof (induction parts arbitrary: segs m)
  case Nil
  then show ?case by simp
next
  case (Cons part parts)
  then show ?case by (cases segs) (simp_all add: params_set_def)
qed

lemma find_proto_route:
  "Router_find ''GET'' ''/x'' (snd (Router_map ''GET'' ''/:__proto__'' h new_Router))
     = Inr (Some \<lparr> handler = h, pathParams = Some Map.empty \<rparr>)"
  by (simp add: router_eval)

lemma follows_literal:
  "locate parts cur = Some n \<Longrightarrow> list_all (\<lambda>x. \<not> isDynamicPart x) parts \<Longrightarrow>
   follows cur parts parts"
  by (induction parts arbitrary: cur) (auto split: option.splits)


section \<open>The claims\<close>

text \<open>
  Claim C1. With exactly the route \<^verbatim>\<open>GET /users/*\<close> registered, the claim expects
  \<^verbatim>\<open>find('GET', '/users/a/b/c')\<close> to succeed with a capture under the key \<^verbatim>\<open>*\<close>, and
  \<^verbatim>\<open>find('GET', '/users')\<close> to be not-found. The code gives not-found for both: the node
  of \<^verbatim>\<open>*\<close> has no child for the segment \<^verbatim>\<open>b\<close>. The wildcard takes exactly one segment,
  as \<^verbatim>\<open>find('GET', '/users/a')\<close> shows, whose capture is \<^verbatim>\<open>{'*': 'a'}\<close>.
\<close>

theorem C1_wildcard_takes_one_segment:
  "Router_find ''GET'' ''/users/a/b/c'' (snd (Router_map ''GET'' ''/users/*'' h new_Router))
     = Inr None \<and>
   Router_find ''GET'' ''/users/a'' (snd (Router_map ''GET'' ''/users/*'' h new_Router))
     = Inr (Some \<lparr> handler = h, pathParams = Some [''*'' \<mapsto> ''a''] \<rparr>) \<and>
   Router_find ''GET'' ''/users'' (snd (Router_map ''GET'' ''/users/*'' h new_Router))
     = Inr None"
  by (simp add: router_eval)

text \<open>
  Claim C2, amended. Let \<^verbatim>\<open>map(m, p, h)\<close> have returned, and let any calls of \<^verbatim>\<open>map\<close>
  follow. If the lookup of \<open>q\<close> goes the way of the route \<open>p\<close> (as many segments as parts, a
  segment under a literal part equal to it, a segment under a dynamic part not the key
  of a literal child of the node reached), then \<^verbatim>\<open>find(m, q)\<close> returns the handler \<open>h\<close>;
  its \<^verbatim>\<open>pathParams\<close> is absent (\<^verbatim>\<open>undefined\<close>) when \<open>q\<close> is the empty path or \<^verbatim>\<open>/\<close>, and
  otherwise the object on which, for the dynamic parts in order, the segment has been
  assigned under the capture name. A route without dynamic parts is found at its own
  path, with the empty mapping unless the path is the empty path or \<^verbatim>\<open>/\<close>. The mapping of
  a route without dynamic parts is empty, and the mapping sends the capture name of a
  dynamic part to its segment when the name is not \<^verbatim>\<open>__proto__\<close> and no later dynamic part
  has the same name. \<^verbatim>\<open>GET /posts/:post_id\<close> finds \<^verbatim>\<open>GET /posts/42\<close> with
  \<^verbatim>\<open>{post_id: "42"}\<close>, and a handler at \<^verbatim>\<open>/\<close> is found without \<^verbatim>\<open>pathParams\<close>.
\<close>

theorem C2_find_returns_handler_and_captures:
  "(fst (Router_map m p h r) = Inr () \<and>
    trie_for m (Router_maps calls (snd (Router_map m p h r))) = Some t \<and>
    follows (root t) (parts_of p) (parts_of q) \<longrightarrow>
      Router_find m q (Router_maps calls (snd (Router_map m p h r)))
        = Inr (Some \<lparr> handler = h,
                      pathParams = (if isRoot q then None
                                    else Some (captures (parts_of p) (parts_of q) Map.empty)) \<rparr>)) \<and>
   (fst (Router_map m p h r) = Inr () \<and> list_all (\<lambda>x. \<not> isDynamicPart x) (parts_of p) \<longrightarrow>
      Router_find m p (Router_maps calls (snd (Router_map m p h r)))
        = Inr (Some \<lparr> handler = h,
                      pathParams = (if isRoot p then None else Some Map.empty) \<rparr>)) \<and>
   (list_all (\<lambda>x. \<not> isDynamicPart x) parts \<longrightarrow> captures parts segs Map.empty = Map.empty) \<and>
   (length parts = length segs \<and> i < length parts \<and> isDynamicPart (parts ! i) \<and>
    (\<forall>j. i < j \<and> j < length parts \<and> isDynamicPart (parts ! j) \<longrightarrow>
         replace_colon (parts ! j) \<noteq> replace_colon (parts ! i)) \<and>
    replace_colon (parts ! i) \<noteq> ''__proto__'' \<longrightarrow>
      captures parts segs ps (replace_colon (parts ! i)) = Some (segs ! i)) \<and>
   Router_find ''GET'' ''/posts/42'' (snd (Router_map ''GET'' ''/posts/:post_id'' h new_Router))
     = Inr (Some \<lparr> handler = h, pathParams = Some [''post_id'' \<mapsto> ''42''] \<rparr>) \<and>
   Router_find ''GET'' ''/'' (snd (Router_map ''GET'' ''/'' h new_Router))
     = Inr (Some \<lparr> handler = h, pathParams = None \<rparr>)"
proof -
  define r' where "r' = Router_maps calls (snd (Router_map m p h r))"
  have reg: "registered m p h r'" if "fst (Router_map m p h r) = Inr ()"
    unfolding r'_def using that by (intro registered_Router_maps registered_after_map)
  have 1: "Router_find m q r'
        = Inr (Some \<lparr> handler = h,
                      pathParams = (if isRoot q then None
                                    else Some (captures (parts_of p) (parts_of q) Map.empty)) \<rparr>)"
    if "fst (Router_map m p h r) = Inr ()" "trie_for m r' = Some t"
      "follows (root t) (parts_of p) (parts_of q)"
    using reg [OF that(1)] that(2,3) by (rule registered_find)
  have 2: "Router_find m p r'
        = Inr (Some \<lparr> handler = h, pathParams = (if isRoot p then None else Some Map.empty) \<rparr>)"
    if ok: "fst (Router_map m p h r) = Inr ()"
      and lit: "list_all (\<lambda>x. \<not> isDynamicPart x) (parts_of p)"
  proof -
    from reg [OF ok] obtain t' n where t': "trie_for m r' = Some t'"
      and n: "locate (parts_of p) (root t') = Some n"
      by (auto simp add: registered_def split: option.splits)
    from n lit have "follows (root t') (parts_of p) (parts_of p)" by (rule follows_literal)
    from registered_find [OF reg [OF ok] t' this] lit show ?thesis
      by (simp add: captures_no_dynamic)
  qed
  have 5: "Router_find ''GET'' ''/posts/42'' (snd (Router_map ''GET'' ''/posts/:post_id'' h new_Router))
     = Inr (Some \<lparr> handler = h, pathParams = Some [''post_id'' \<mapsto> ''42''] \<rparr>)"
    by (simp add: router_eval)
  have 6: "Router_find ''GET'' ''/'' (snd (Router_map ''GET'' ''/'' h new_Router))
     = Inr (Some \<lparr> handler = h, pathParams = None \<rparr>)"
    by (simp add: router_eval)
  from 1 2 captures_no_dynamic [of parts segs Map.empty] captures_nth [of parts segs i ps] 5 6
  show ?thesis unfolding r'_def by blast
qed

theorem C2_find_returns_handler_and_captures_witness:
  "fst (Router_map ''GET'' ''/posts/:post_id/comments/:id'' (1::nat) new_Router) = Inr () \<and>
   trie_for ''GET''
       (Router_maps [(''GET'', ''/posts/top'', 2)]
          (snd (Router_map ''GET'' ''/posts/:post_id/comments/:id'' (1::nat) new_Router)))
     = Some (snd (RouteTrie_insert handler_truthy ''/posts/top'' (Some 2)
          (snd (RouteTrie_insert handler_truthy ''/posts/:post_id/comments/:id'' (Some 1)
                  new_RouteTrie)))) \<and>
   follows
       (root (snd (RouteTrie_insert handler_truthy ''/posts/top'' (Some 2)
          (snd (RouteTrie_insert handler_truthy ''/posts/:post_id/comments/:id'' (Some (1::nat))
                  new_RouteTrie)))))
       (parts_of ''/posts/:post_id/comments/:id'') (parts_of ''/posts/42/comments/7'') \<and>
   Router_find ''GET'' ''/posts/42/comments/7''
       (Router_maps [(''GET'', ''/posts/top'', 2)]
          (snd (Router_map ''GET'' ''/posts/:post_id/comments/:id'' (1::nat) new_Router)))
     = Inr (Some \<lparr> handler = 1,
                   pathParams = Some [''post_id'' \<mapsto> ''42'', ''id'' \<mapsto> ''7''] \<rparr>) \<and>
   list_all (\<lambda>x. \<not> isDynamicPart x) (parts_of ''/a/b'') \<and>
   Router_find ''GET'' ''/a/b''
       (Router_maps [(''GET'', ''/a/:x'', 2)] (snd (Router_map ''GET'' ''/a/b'' (1::nat) new_Router)))
     = Inr (Some \<lparr> handler = 1, pathParams = Some Map.empty \<rparr>) \<and>
   captures ['':id'', ''x'', '':id''] [''1'', ''x'', ''2''] Map.empty
       (replace_colon (['':id'', ''x'', '':id''] ! 2))
     = Some ([''1'', ''x'', ''2''] ! 2)"
proof -
  let ?p = "''/posts/:post_id/comments/:id''"
  let ?q = "''/posts/42/comments/7''"
  let ?calls = "[(''GET'', ''/posts/top'', 2::nat)]"
  let ?r = "new_Router :: nat Router"
  let ?t = "snd (RouteTrie_insert handler_truthy ''/posts/top'' (Some 2)
          (snd (RouteTrie_insert handler_truthy ?p (Some (1::nat)) new_RouteTrie)))"
  have a: "fst (Router_map ''GET'' ?p (1::nat) ?r) = Inr ()"
    by (simp add: router_eval)
  have b: "trie_for ''GET'' (Router_maps ?calls (snd (Router_map ''GET'' ?p 1 ?r))) = Some ?t"
    by (simp add: router_eval)
  have c: "follows (root ?t) (parts_of ?p) (parts_of ?q)"
    by (simp add: router_eval)
  have d: "\<not> isRoot ?q" by (simp add: isRoot_def)
  have e: "captures (parts_of ?p) (parts_of ?q) Map.empty
      = [''post_id'' \<mapsto> ''42'', ''id'' \<mapsto> ''7'']"
    by (simp add: parts_of_def isDynamicPart_def replace_colon_def params_set_def)
  have g1: "Router_find ''GET'' ?q (Router_maps ?calls (snd (Router_map ''GET'' ?p 1 ?r)))
      = Inr (Some \<lparr> handler = 1,
                    pathParams = (if isRoot ?q then None
                                  else Some (captures (parts_of ?p) (parts_of ?q) Map.empty)) \<rparr>)"
    using C2_find_returns_handler_and_captures
        [where m = "''GET''" and p = ?p and h = "1::nat" and r = ?r and calls = ?calls
           and t = ?t and q = ?q and parts = "['':id'', ''x'', '':id'']"
           and segs = "[''1'', ''x'', ''2'']" and i = 2 and ps = Map.empty] a b c
    by blast
  have a2: "fst (Router_map ''GET'' ''/a/b'' (1::nat) ?r) = Inr ()"
    by (simp add: router_eval)
  have l: "list_all (\<lambda>x. \<not> isDynamicPart x) (parts_of ''/a/b'')"
    by (simp add: parts_of_def isDynamicPart_def)
  have d2: "\<not> isRoot ''/a/b''" by (simp add: isRoot_def)
  have g2: "Router_find ''GET'' ''/a/b''
       (Router_maps [(''GET'', ''/a/:x'', 2)] (snd (Router_map ''GET'' ''/a/b'' (1::nat) ?r)))
      = Inr (Some \<lparr> handler = 1,
                    pathParams = (if isRoot ''/a/b'' then None else Some Map.empty) \<rparr>)"
    using C2_find_returns_handler_and_captures
        [where m = "''GET''" and p = "''/a/b''" and h = "1::nat" and r = ?r and calls = "[(''GET'', ''/a/:x'', 2::nat)]"
           and t = ?t and q = ?q and parts = "['':id'', ''x'', '':id'']"
           and segs = "[''1'', ''x'', ''2'']" and i = 2 and ps = Map.empty] a2 l
    by blast
  have h: "length ['':id'', ''x'', '':id''] = length [''1'', ''x'', ''2''] \<and>
      2 < length ['':id'', ''x'', '':id''] \<and> isDynamicPart (['':id'', ''x'', '':id''] ! 2) \<and>
      (\<forall>j. 2 < j \<and> j < length ['':id'', ''x'', '':id''] \<and>
           isDynamicPart (['':id'', ''x'', '':id''] ! j) \<longrightarrow>
           replace_colon (['':id'', ''x'', '':id''] ! j)
             \<noteq> replace_colon (['':id'', ''x'', '':id''] ! 2)) \<and>
      replace_colon (['':id'', ''x'', '':id''] ! 2) \<noteq> ''__proto__''"
    by (auto simp add: isDynamicPart_def replace_colon_def)
  have g3: "captures ['':id'', ''x'', '':id''] [''1'', ''x'', ''2''] Map.empty
       (replace_colon (['':id'', ''x'', '':id''] ! 2))
     = Some ([''1'', ''x'', ''2''] ! 2)"
    using C2_find_returns_handler_and_captures
        [where m = "''GET''" and p = ?p and h = "1::nat" and r = ?r and calls = ?calls
           and t = ?t and q = ?q and parts = "['':id'', ''x'', '':id'']"
           and segs = "[''1'', ''x'', ''2'']" and i = 2 and ps = Map.empty] h
    by blast
  from g1 d e have g1': "Router_find ''GET'' ?q (Router_maps ?calls (snd (Router_map ''GET'' ?p 1 ?r)))
      = Inr (Some \<lparr> handler = 1,
                    pathParams = Some [''post_id'' \<mapsto> ''42'', ''id'' \<mapsto> ''7''] \<rparr>)"
    by (simp only: if_False)
  from g2 d2 have g2': "Router_find ''GET'' ''/a/b''
       (Router_maps [(''GET'', ''/a/:x'', 2)] (snd (Router_map ''GET'' ''/a/b'' (1::nat) ?r)))
      = Inr (Some \<lparr> handler = 1, pathParams = Some Map.empty \<rparr>)"
    by (simp only: if_False)
  from a b c l g1' g2' g3 show ?thesis by blast
qed

text \<open>
  Claim C2 as stated fails at the root: the result of \<^verbatim>\<open>find('GET', '/')\<close> carries no
  \<^verbatim>\<open>pathParams\<close>, not the empty mapping.
\<close>

theorem C2_root_params_counterexample:
  "Router_find ''GET'' ''/'' (snd (Router_map ''GET'' ''/'' (1::nat) new_Router))
     \<noteq> Inr (Some \<lparr> handler = 1, pathParams = Some empty_params \<rparr>)"
  by (simp add: router_eval)

text \<open>
  Claim C3. One step of the loop of \<^verbatim>\<open>find\<close>: a literal child under the segment is taken
  whatever the dynamic child is; without one the dynamic child is taken and the segment
  assigned to \<^verbatim>\<open>params\<close> under its name; without either the lookup is not-found. What the branch taken
  answers is the answer: when the literal child fails on the rest of the path, the lookup
  fails, also where the dynamic child would have matched. So with \<^verbatim>\<open>GET /posts/:post_id\<close>
  and \<^verbatim>\<open>GET /posts/top\<close> registered, \<^verbatim>\<open>GET /posts/top\<close> finds the literal handler, and
  with \<^verbatim>\<open>GET /posts/:post_id/comments\<close> and \<^verbatim>\<open>GET /posts/top\<close> registered,
  \<^verbatim>\<open>GET /posts/top/comments\<close> is not-found.
\<close>

theorem C3_literal_first_no_backtracking:
  "(map_of (children cur) seg = Some c \<longrightarrow>
      find_loop (seg # rest) ps cur = find_loop rest ps c) \<and>
   (map_of (children cur) seg = None \<and> dynamicSegment cur = Some d \<longrightarrow>
      find_loop (seg # rest) ps cur = find_loop rest (params_set ps (path d) seg) d) \<and>
   (map_of (children cur) seg = None \<and> dynamicSegment cur = None \<longrightarrow>
      find_loop (seg # rest) ps cur = None) \<and>
   (map_of (children cur) seg = Some c \<and> find_loop rest ps c = None \<longrightarrow>
      find_loop (seg # rest) ps cur = None) \<and>
   Router_find ''GET'' ''/posts/top''
       (Router_maps [(''GET'', ''/posts/:post_id'', h1), (''GET'', ''/posts/top'', h2)] new_Router)
     = Inr (Some \<lparr> handler = h2, pathParams = Some Map.empty \<rparr>) \<and>
   Router_find ''GET'' ''/posts/42/comments''
       (Router_maps [(''GET'', ''/posts/:post_id/comments'', h1), (''GET'', ''/posts/top'', h2)]
          new_Router)
     = Inr (Some \<lparr> handler = h1, pathParams = Some [''post_id'' \<mapsto> ''42''] \<rparr>) \<and>
   Router_find ''GET'' ''/posts/top/comments''
       (Router_maps [(''GET'', ''/posts/:post_id/comments'', h1), (''GET'', ''/posts/top'', h2)]
          new_Router)
     = Inr None"
proof -
  have "Router_find ''GET'' ''/posts/top''
       (Router_maps [(''GET'', ''/posts/:post_id'', h1), (''GET'', ''/posts/top'', h2)] new_Router)
     = Inr (Some \<lparr> handler = h2, pathParams = Some Map.empty \<rparr>)"
    by (simp add: router_eval)
  moreover have "Router_find ''GET'' ''/posts/42/comments''
       (Router_maps [(''GET'', ''/posts/:post_id/comments'', h1), (''GET'', ''/posts/top'', h2)]
          new_Router)
     = Inr (Some \<lparr> handler = h1, pathParams = Some [''post_id'' \<mapsto> ''42''] \<rparr>)"
    by (simp add: router_eval)
  moreover have "Router_find ''GET'' ''/posts/top/comments''
       (Router_maps [(''GET'', ''/posts/:post_id/comments'', h1), (''GET'', ''/posts/top'', h2)]
          new_Router)
     = Inr None"
    by (simp add: router_eval)
  ultimately show ?thesis by simp
qed

theorem C3_literal_first_no_backtracking_witness:
  "map_of (children (RouteTrieNode ''posts'' [(''top'', new_RouteTrieNode ''top'')]
                      (Some (RouteTrieNode ''post_id'' [] None (Some (1::nat)))) None)) ''top''
     = Some (new_RouteTrieNode ''top'') \<and>
   find_loop [''top''] Map.empty
       (RouteTrieNode ''posts'' [(''top'', new_RouteTrieNode ''top'')]
          (Some (RouteTrieNode ''post_id'' [] None (Some (1::nat)))) None)
     = Some (new_RouteTrieNode ''top'', Map.empty) \<and>
   find_loop [''top'', ''x''] Map.empty
       (RouteTrieNode ''posts'' [(''top'', new_RouteTrieNode ''top'')]
          (Some (RouteTrieNode ''post_id'' [] None (Some (1::nat)))) None)
     = None \<and>
   find_loop [''42''] Map.empty
       (RouteTrieNode ''posts'' [(''top'', new_RouteTrieNode ''top'')]
          (Some (RouteTrieNode ''post_id'' [] None (Some (1::nat)))) None)
     = Some (RouteTrieNode ''post_id'' [] None (Some 1), [''post_id'' \<mapsto> ''42'']) \<and>
   find_loop [''42''] Map.empty (new_RouteTrieNode ''top'' :: nat RouteTrieNode) = None"
proof -
  let ?d = "RouteTrieNode ''post_id'' [] None (Some (1::nat))"
  let ?c = "new_RouteTrieNode ''top'' :: nat RouteTrieNode"
  let ?cur = "RouteTrieNode ''posts'' [(''top'', ?c)] (Some ?d) None"
  have a: "map_of (children ?cur) ''top'' = Some ?c" by simp
  have b: "map_of (children ?cur) ''42'' = None \<and> dynamicSegment ?cur = Some ?d" by simp
  have c: "map_of (children ?c) ''42'' = None \<and> dynamicSegment ?c = None" by simp
  have d: "find_loop [''x''] Map.empty ?c = None" by simp
  from C3_literal_first_no_backtracking [of ?cur "''top''" ?c "[]" Map.empty ?d 1 1]
       C3_literal_first_no_backtracking [of ?cur "''top''" ?c "[''x'']" Map.empty ?d 1 1]
       C3_literal_first_no_backtracking [of ?cur "''42''" ?c "[]" Map.empty ?d 1 1]
       C3_literal_first_no_backtracking [of ?c "''42''" ?c "[]" Map.empty ?d 1 1]
       a b c d
  show ?thesis by (simp add: params_set_def)
qed

text \<open>
  Claim C4. Let the loop of an insertion of \<open>p\<close> have walked the parts \<open>pre\<close> through nodes
  that exist, to a node \<open>n\<close> with a dynamic child \<open>d\<close>, and let the next part be dynamic.
  If the capture name of the part is not the name of \<open>d\<close>, the insertion throws
  ConflictingDynamicSegment with the path (after the leading slash was put in front) and
  the name of \<open>d\<close>, and the trie is as before. If the names are equal, the loop stands at
  \<open>d\<close> after the part and the outcome is the outcome of the rest of the loop from \<open>d\<close>.
  Inserting \<^verbatim>\<open>GET /posts/:id\<close> and then \<^verbatim>\<open>GET /posts/:post_id\<close> throws
  ConflictingDynamicSegment.
\<close>

theorem C4_conflicting_dynamic_segment:
  "(parts_of p = pre @ part # rest \<and> locate pre (root t) = Some n \<and>
    dynamicSegment n = Some d \<and> isDynamicPart part \<longrightarrow>
      (path d \<noteq> replace_colon part \<longrightarrow>
         RouteTrie_insert tr p v t
           = (Inl (ConflictingDynamicSegment (with_slash p) (path d)), t)) \<and>
      (path d = replace_colon part \<longrightarrow>
         locate (pre @ [part]) (root t) = Some d \<and>
         fst (RouteTrie_insert tr p v t) = fst (insert_loop tr (with_slash p) rest v d))) \<and>
   Router_map ''GET'' ''/posts/:post_id'' h2 (snd (Router_map ''GET'' ''/posts/:id'' h1 new_Router))
     = (Inl (ConflictingDynamicSegment ''/posts/:post_id'' ''id''),
        snd (Router_map ''GET'' ''/posts/:id'' h1 new_Router))"
proof -
  have general: "(path d \<noteq> replace_colon part \<longrightarrow>
         RouteTrie_insert tr p v t
           = (Inl (ConflictingDynamicSegment (with_slash p) (path d)), t)) \<and>
      (path d = replace_colon part \<longrightarrow>
         locate (pre @ [part]) (root t) = Some d \<and>
         fst (RouteTrie_insert tr p v t) = fst (insert_loop tr (with_slash p) rest v d))"
    if parts: "parts_of p = pre @ part # rest" and pre: "locate pre (root t) = Some n"
      and d: "dynamicSegment n = Some d" and dyn: "isDynamicPart part"
  proof -
    have step: "fst (RouteTrie_insert tr p v t)
        = fst (insert_loop tr (with_slash p) (part # rest) v n)"
      using insert_loop_append [OF pre, of tr "with_slash p" "part # rest" v] parts
      by (simp add: fst_RouteTrie_insert)
    show ?thesis
    proof (cases "path d = replace_colon part")
      case True
      with step d dyn locate_append [OF pre, of "[part]"] show ?thesis
        by (simp add: Let_def case_prod_unfold)
    next
      case False
      with step d dyn
      have "fst (RouteTrie_insert tr p v t)
          = Inl (ConflictingDynamicSegment (with_slash p) (path d))"
        by (simp add: Let_def)
      with RouteTrie_insert_error_unchanged [of tr p v t] False show ?thesis
        by (simp add: prod_eq_iff)
    qed
  qed
  have example:
    "Router_map ''GET'' ''/posts/:post_id'' h2 (snd (Router_map ''GET'' ''/posts/:id'' h1 new_Router))
     = (Inl (ConflictingDynamicSegment ''/posts/:post_id'' ''id''),
        snd (Router_map ''GET'' ''/posts/:id'' h1 new_Router))"
    by (simp add: router_eval)
  from general example show ?thesis by blast
qed

theorem C4_conflicting_dynamic_segment_witness:
  "parts_of ''/posts/:post_id/edit'' = [''posts''] @ '':post_id'' # [''edit''] \<and>
   locate [''posts''] (root (snd (RouteTrie_insert handler_truthy ''/posts/:id'' (Some (1::nat)) new_RouteTrie)))
     = Some (RouteTrieNode ''posts'' [] (Some (RouteTrieNode ''id'' [] None (Some 1))) None) \<and>
   isDynamicPart '':post_id'' \<and>
   RouteTrie_insert handler_truthy ''/posts/:post_id/edit'' (Some 2)
       (snd (RouteTrie_insert handler_truthy ''/posts/:id'' (Some (1::nat)) new_RouteTrie))
     = (Inl (ConflictingDynamicSegment ''/posts/:post_id/edit'' ''id''),
        snd (RouteTrie_insert handler_truthy ''/posts/:id'' (Some (1::nat)) new_RouteTrie)) \<and>
   parts_of ''/posts/:id/edit'' = [''posts''] @ '':id'' # [''edit''] \<and>
   isDynamicPart '':id'' \<and>
   locate ([''posts''] @ ['':id''])
       (root (snd (RouteTrie_insert handler_truthy ''/posts/:id'' (Some (1::nat)) new_RouteTrie)))
     = Some (RouteTrieNode ''id'' [] None (Some 1)) \<and>
   fst (RouteTrie_insert handler_truthy ''/posts/:id/edit'' (Some 2)
       (snd (RouteTrie_insert handler_truthy ''/posts/:id'' (Some (1::nat)) new_RouteTrie)))
     = Inr ()"
proof -
  let ?t = "snd (RouteTrie_insert handler_truthy ''/posts/:id'' (Some (1::nat)) new_RouteTrie)"
  let ?d = "RouteTrieNode ''id'' [] None (Some (1::nat))"
  let ?n = "RouteTrieNode ''posts'' [] (Some ?d) None"
  have a: "parts_of ''/posts/:post_id/edit'' = [''posts''] @ '':post_id'' # [''edit'']"
    by (simp add: router_eval)
  have a': "parts_of ''/posts/:id/edit'' = [''posts''] @ '':id'' # [''edit'']"
    by (simp add: router_eval)
  have b: "locate [''posts''] (root ?t) = Some ?n"
    by (simp add: router_eval)
  have c: "dynamicSegment ?n = Some ?d" by simp
  have d: "isDynamicPart '':post_id'' \<and> isDynamicPart '':id''" by (simp add: isDynamicPart_def)
  have e: "path ?d \<noteq> replace_colon '':post_id'' \<and> path ?d = replace_colon '':id''"
    by (simp add: replace_colon_def)
  have f: "fst (insert_loop handler_truthy (with_slash ''/posts/:id/edit'') [''edit''] (Some 2) ?d)
      = Inr ()"
    by (simp add: router_eval)
  have ws: "with_slash ''/posts/:post_id/edit'' = ''/posts/:post_id/edit''"
    by (simp add: with_slash_def)
  have g1: "RouteTrie_insert handler_truthy ''/posts/:post_id/edit'' (Some 2) ?t
      = (Inl (ConflictingDynamicSegment (with_slash ''/posts/:post_id/edit'') (path ?d)), ?t)"
    using C4_conflicting_dynamic_segment
         [of "''/posts/:post_id/edit''" "[''posts'']" "'':post_id''" "[''edit'']" ?t ?n ?d
             handler_truthy "Some 2" 1 1]
       a b c d e
    by blast
  have g2: "locate ([''posts''] @ ['':id'']) (root ?t) = Some ?d \<and>
      fst (RouteTrie_insert handler_truthy ''/posts/:id/edit'' (Some 2) ?t)
        = fst (insert_loop handler_truthy (with_slash ''/posts/:id/edit'') [''edit''] (Some 2) ?d)"
    using C4_conflicting_dynamic_segment
         [of "''/posts/:id/edit''" "[''posts'']" "'':id''" "[''edit'']" ?t ?n ?d
             handler_truthy "Some 2" 1 1]
       a' b c d e
    by blast
  from g1 have g1': "RouteTrie_insert handler_truthy ''/posts/:post_id/edit'' (Some 2) ?t
      = (Inl (ConflictingDynamicSegment ''/posts/:post_id/edit'' ''id''), ?t)"
    by (simp only: ws RouteTrieNode.sel)
  from g2 f have g2': "fst (RouteTrie_insert handler_truthy ''/posts/:id/edit'' (Some 2) ?t) = Inr ()"
    by (simp only:)
  from a a' b d g1' g2 g2' show ?thesis by blast
qed

text \<open>
  Claim C5. Once \<^verbatim>\<open>map(m, p, h)\<close> has returned, then after any further calls of \<^verbatim>\<open>map\<close>
  a call for the same method (in any case of letters) and a path of the same segments
  throws DuplicateRoute with its path and changes nothing. In a trie, an insertion throws
  DuplicateRoute exactly when the node its route ends at exists and holds a truthy
  value; an insertion that returns has bound its value at the node its route ends at;
  an insertion whose route ends at a node without a truthy value returns; and an
  insertion returns, throws DuplicateRoute or throws ConflictingDynamicSegment. Inserting
  \<^verbatim>\<open>GET /a/b\<close> twice throws DuplicateRoute.
\<close>

theorem C5_duplicate_route:
  "(fst (Router_map m p h r) = Inr () \<and> toUpperCase m' = toUpperCase m \<and>
    parts_of p' = parts_of p \<longrightarrow>
      Router_map m' p' h' (Router_maps calls (snd (Router_map m p h r)))
        = (Inl (DuplicateRoute (with_slash p')),
           Router_maps calls (snd (Router_map m p h r)))) \<and>
   (fst (RouteTrie_insert tr p v t) = Inl (DuplicateRoute (with_slash p)))
     = (\<exists>n. locate (parts_of p) (root t) = Some n \<and> truthy tr (node_value n)) \<and>
   (fst (RouteTrie_insert tr p v t) = Inr () \<longrightarrow>
      (\<exists>n. locate (parts_of p) (root (snd (RouteTrie_insert tr p v t))) = Some n \<and>
           node_value n = v)) \<and>
   (locate (parts_of p) (root t) = Some n \<and> \<not> truthy tr (node_value n) \<longrightarrow>
      fst (RouteTrie_insert tr p v t) = Inr ()) \<and>
   (fst (RouteTrie_insert tr p v t) = Inr () \<or>
    fst (RouteTrie_insert tr p v t) = Inl (DuplicateRoute (with_slash p)) \<or>
    (\<exists>c. fst (RouteTrie_insert tr p v t) = Inl (ConflictingDynamicSegment (with_slash p) c))) \<and>
   Router_map ''GET'' ''/a/b'' h2 (snd (Router_map ''GET'' ''/a/b'' h1 new_Router))
     = (Inl (DuplicateRoute ''/a/b''), snd (Router_map ''GET'' ''/a/b'' h1 new_Router))"
proof -
  have 1: "Router_map m' p' h' (Router_maps calls (snd (Router_map m p h r)))
        = (Inl (DuplicateRoute (with_slash p')),
           Router_maps calls (snd (Router_map m p h r)))"
    if "fst (Router_map m p h r) = Inr ()" "toUpperCase m' = toUpperCase m"
      "parts_of p' = parts_of p"
    by (rule registered_duplicate
          [OF registered_Router_maps [OF registered_after_map [OF that(1)]] that(2,3)])
  have 2: "(fst (RouteTrie_insert tr p v t) = Inl (DuplicateRoute (with_slash p)))
     = (\<exists>n. locate (parts_of p) (root t) = Some n \<and> truthy tr (node_value n))"
    using insert_loop_duplicate_located [of tr "with_slash p" "parts_of p" v "root t" "with_slash p"]
      insert_loop_duplicate [of "parts_of p" "root t" _ tr "with_slash p" v]
    by (auto simp add: fst_RouteTrie_insert)
  have 3: "\<exists>n. locate (parts_of p) (root (snd (RouteTrie_insert tr p v t))) = Some n \<and>
           node_value n = v"
    if "fst (RouteTrie_insert tr p v t) = Inr ()"
    using that locate_after_insert [of tr "with_slash p" "parts_of p" v "root t"]
    by (simp add: fst_RouteTrie_insert root_RouteTrie_insert)
  have 4: "fst (RouteTrie_insert tr p v t) = Inr ()"
    if "locate (parts_of p) (root t) = Some n" "\<not> truthy tr (node_value n)"
    using that insert_loop_append [of "parts_of p" "root t" n tr "with_slash p" "[]" v]
    by (simp add: fst_RouteTrie_insert)
  have 5: "fst (RouteTrie_insert tr p v t) = Inr () \<or>
    fst (RouteTrie_insert tr p v t) = Inl (DuplicateRoute (with_slash p)) \<or>
    (\<exists>c. fst (RouteTrie_insert tr p v t) = Inl (ConflictingDynamicSegment (with_slash p) c))"
  proof (cases "fst (RouteTrie_insert tr p v t)")
    case (Inl e)
    with insert_loop_errors [of tr "with_slash p" "parts_of p" v "root t" e] show ?thesis
      by (auto simp add: fst_RouteTrie_insert)
  next
    case (Inr u)
    then show ?thesis by simp
  qed
  have 6: "Router_map ''GET'' ''/a/b'' h2 (snd (Router_map ''GET'' ''/a/b'' h1 new_Router))
     = (Inl (DuplicateRoute ''/a/b''), snd (Router_map ''GET'' ''/a/b'' h1 new_Router))"
    by (simp add: router_eval)
  from 1 2 3 4 5 6 show ?thesis by blast
qed

theorem C5_duplicate_route_witness:
  "fst (Router_map ''GET'' ''/a/b'' (1::nat) new_Router) = Inr () \<and>
   toUpperCase ''get'' = toUpperCase ''GET'' \<and>
   parts_of ''a//b/'' = parts_of ''/a/b'' \<and>
   Router_map ''get'' ''a//b/'' 2
       (Router_maps [(''POST'', ''/a/b'', 3), (''GET'', ''/a/:x'', 4)]
          (snd (Router_map ''GET'' ''/a/b'' (1::nat) new_Router)))
     = (Inl (DuplicateRoute ''/a//b/''),
        Router_maps [(''POST'', ''/a/b'', 3), (''GET'', ''/a/:x'', 4)]
          (snd (Router_map ''GET'' ''/a/b'' (1::nat) new_Router))) \<and>
   locate (parts_of ''/a'')
       (root (snd (RouteTrie_insert handler_truthy ''/a/b'' (Some (1::nat)) new_RouteTrie)))
     = Some (RouteTrieNode ''a'' [(''b'', RouteTrieNode ''b'' [] None (Some 1))] None None) \<and>
   \<not> truthy handler_truthy
       (node_value (RouteTrieNode ''a'' [(''b'', RouteTrieNode ''b'' [] None (Some (1::nat)))]
                      None None)) \<and>
   fst (RouteTrie_insert handler_truthy ''/a'' (Some 2)
          (snd (RouteTrie_insert handler_truthy ''/a/b'' (Some (1::nat)) new_RouteTrie)))
     = Inr ()"
proof -
  let ?r = "new_Router :: nat Router"
  let ?calls = "[(''POST'', ''/a/b'', 3::nat), (''GET'', ''/a/:x'', 4)]"
  let ?t = "snd (RouteTrie_insert handler_truthy ''/a/b'' (Some (1::nat)) new_RouteTrie)"
  let ?n = "RouteTrieNode ''a'' [(''b'', RouteTrieNode ''b'' [] None (Some (1::nat)))] None None"
  have a: "fst (Router_map ''GET'' ''/a/b'' (1::nat) ?r) = Inr ()"
    by (simp add: router_eval)
  have b: "toUpperCase ''get'' = toUpperCase ''GET''"
    by (simp add: toUpperCase_def toUpperCase_char_def)
  have c: "parts_of ''a//b/'' = parts_of ''/a/b''"
    by (simp add: parts_of_def)
  have d: "locate (parts_of ''/a'') (root ?t) = Some ?n"
    by (simp add: router_eval)
  have e: "\<not> truthy handler_truthy (node_value ?n)" by simp
  have ws: "with_slash ''a//b/'' = ''/a//b/''" by (simp add: with_slash_def)
  have g1: "Router_map ''get'' ''a//b/'' 2 (Router_maps ?calls (snd (Router_map ''GET'' ''/a/b'' 1 ?r)))
     = (Inl (DuplicateRoute (with_slash ''a//b/'')),
        Router_maps ?calls (snd (Router_map ''GET'' ''/a/b'' 1 ?r)))"
    using C5_duplicate_route
        [of "''GET''" "''/a/b''" 1 ?r "''get''" "''a//b/''" 2 ?calls handler_truthy "Some 2" ?t ?n 1 1]
      a b c
    by blast
  have g2: "fst (RouteTrie_insert handler_truthy ''/a'' (Some 2) ?t) = Inr ()"
    using C5_duplicate_route
        [of "''GET''" "''/a''" 1 ?r "''get''" "''a//b/''" 2 ?calls handler_truthy "Some 2" ?t ?n 1 1]
      d e
    by blast
  from g1 have g1': "Router_map ''get'' ''a//b/'' 2 (Router_maps ?calls (snd (Router_map ''GET'' ''/a/b'' 1 ?r)))
     = (Inl (DuplicateRoute ''/a//b/''),
        Router_maps ?calls (snd (Router_map ''GET'' ''/a/b'' 1 ?r)))"
    by (simp only: ws)
  from a b c d e g1' g2 show ?thesis by blast
qed

text \<open>
  Claim C6. In every router built by the constructor and any calls of \<^verbatim>\<open>map\<close>,
  \<^verbatim>\<open>find\<close> and \<^verbatim>\<open>map\<close> throw the error of an unsupported method exactly when the
  upper-cased method is none of the nine of the enum; two spellings with the same upper
  case of a supported method behave alike, so \<^verbatim>\<open>find('get', p)\<close> is \<^verbatim>\<open>find('GET', p)\<close>;
  and \<^verbatim>\<open>find('PURGE', '/anything')\<close> throws.
\<close>

theorem C6_method_normalised_and_validated:
  "(Router_find m p (Router_maps calls new_Router) = Inl (UnsupportedMethod m))
     = (toUpperCase m \<notin> set HttpMethod) \<and>
   (fst (Router_map m p h (Router_maps calls new_Router)) = Inl (UnsupportedMethod m))
     = (toUpperCase m \<notin> set HttpMethod) \<and>
   (toUpperCase m \<in> set HttpMethod \<and> toUpperCase m' = toUpperCase m \<longrightarrow>
      Router_find m' p (Router_maps calls new_Router)
        = Router_find m p (Router_maps calls new_Router) \<and>
      Router_map m' p h (Router_maps calls new_Router)
        = Router_map m p h (Router_maps calls new_Router)) \<and>
   Router_find ''get'' p (Router_maps calls new_Router)
     = Router_find ''GET'' p (Router_maps calls new_Router) \<and>
   Router_find ''PURGE'' ''/anything'' (Router_maps calls new_Router)
     = Inl (UnsupportedMethod ''PURGE'')"
proof -
  define r :: "'a Router" where "r = Router_maps calls new_Router"
  have keys: "map fst (routeMethodMap r) = HttpMethod"
    by (simp add: r_def keys_Router_maps keys_new_Router)
  note none = trie_for_keys [OF keys]
  have 1: "(Router_find m p r = Inl (UnsupportedMethod m)) = (toUpperCase m \<notin> set HttpMethod)"
    using none [of m] by (cases "trie_for m r") (auto simp add: Router_find_trie_for split: option.splits)
  have 2: "(fst (Router_map m p h r) = Inl (UnsupportedMethod m)) = (toUpperCase m \<notin> set HttpMethod)"
  proof (cases "trie_for m r")
    case None
    with none [of m] show ?thesis by (simp add: fst_Router_map)
  next
    case (Some t)
    with Router_map_errors [of m p h r "UnsupportedMethod m"] none [of m] show ?thesis by auto
  qed
  have 3: "Router_find b p r = Router_find a p r \<and> Router_map b p h r = Router_map a p h r"
    if "toUpperCase a \<in> set HttpMethod" "toUpperCase b = toUpperCase a" for a b
  proof -
    from that none [of a] obtain t where "map_of (routeMethodMap r) (toUpperCase a) = Some t"
      by (auto simp add: trie_for_def)
    with that(2) show ?thesis by (simp add: Router_find_def Router_map_def)
  qed
  have 4: "Router_find ''get'' p r = Router_find ''GET'' p r"
    using 3 [of "''GET''" "''get''"]
    by (simp add: toUpperCase_def toUpperCase_char_def HttpMethod_def)
  have 5: "Router_find ''PURGE'' ''/anything'' r = Inl (UnsupportedMethod ''PURGE'')"
    using none [of "''PURGE''"]
    by (simp add: Router_find_trie_for toUpperCase_def toUpperCase_char_def HttpMethod_def)
  from 1 2 3 4 5 show ?thesis unfolding r_def by blast
qed

theorem C6_method_normalised_and_validated_witness:
  "toUpperCase ''gEt'' \<in> set HttpMethod \<and> toUpperCase ''Get'' = toUpperCase ''gEt'' \<and>
   Router_find ''Get'' ''/posts/42'' (Router_maps [(''GET'', ''/posts/:post_id'', 1::nat)] new_Router)
     = Router_find ''gEt'' ''/posts/42'' (Router_maps [(''GET'', ''/posts/:post_id'', 1)] new_Router) \<and>
   Router_map ''Get'' ''/x'' 2 (Router_maps [(''GET'', ''/posts/:post_id'', 1::nat)] new_Router)
     = Router_map ''gEt'' ''/x'' 2 (Router_maps [(''GET'', ''/posts/:post_id'', 1)] new_Router) \<and>
   toUpperCase ''purge'' \<notin> set HttpMethod \<and>
   Router_find ''purge'' ''/posts/42'' (Router_maps [(''GET'', ''/posts/:post_id'', 1::nat)] new_Router)
     = Inl (UnsupportedMethod ''purge'')"
proof -
  have a: "toUpperCase ''gEt'' \<in> set HttpMethod \<and> toUpperCase ''Get'' = toUpperCase ''gEt''"
    by (simp add: toUpperCase_def toUpperCase_char_def HttpMethod_def)
  have b: "toUpperCase ''purge'' \<notin> set HttpMethod"
    by (simp add: toUpperCase_def toUpperCase_char_def HttpMethod_def)
  from C6_method_normalised_and_validated
         [of "''gEt''" "''/posts/42''" "[(''GET'', ''/posts/:post_id'', 1::nat)]" 2 "''Get''"]
       C6_method_normalised_and_validated
         [of "''gEt''" "''/x''" "[(''GET'', ''/posts/:post_id'', 1::nat)]" 2 "''Get''"]
       C6_method_normalised_and_validated
         [of "''purge''" "''/posts/42''" "[(''GET'', ''/posts/:post_id'', 1::nat)]" 2 "''Get''"]
       a b
  show ?thesis by blast
qed

text \<open>
  Claim C7. For a method that has a trie, \<^verbatim>\<open>Router.find\<close> returns the not-found result
  exactly when the walk of the trie reaches no node or the node reached has no truthy
  value; it never throws, and the not-found result is a value of another kind than the
  error of an unsupported method.
\<close>

theorem C7_not_found_is_not_an_error:
  assumes "trie_for m r = Some t"
  shows "(Router_find m p r = Inr None) =
           (RouteTrie_find p t = None \<or>
            (\<exists>res. RouteTrie_find p t = Some res \<and>
                   \<not> truthy handler_truthy (node_value (node res)))) \<and>
         Router_find m p r \<noteq> Inl e \<and>
         (Inr None :: error + 'h RouterFindResult option) \<noteq> Inl (UnsupportedMethod m')"
  using assms
  by (auto simp add: Router_find_trie_for handler_truthy_def split: option.splits)

theorem C7_not_found_is_not_an_error_witness:
  "trie_for ''GET'' (snd (Router_map ''GET'' ''/a/b'' (1::nat) new_Router))
     = Some (snd (RouteTrie_insert handler_truthy ''/a/b'' (Some 1) new_RouteTrie)) \<and>
   Router_find ''GET'' ''/a'' (snd (Router_map ''GET'' ''/a/b'' (1::nat) new_Router)) = Inr None \<and>
   (\<exists>res. RouteTrie_find ''/a'' (snd (RouteTrie_insert handler_truthy ''/a/b'' (Some (1::nat)) new_RouteTrie))
            = Some res \<and> \<not> truthy handler_truthy (node_value (node res))) \<and>
   Router_find ''GET'' ''/a'' (snd (Router_map ''GET'' ''/a/b'' (1::nat) new_Router))
     \<noteq> Inl (UnsupportedMethod ''GET'')"
proof -
  have t: "trie_for ''GET'' (snd (Router_map ''GET'' ''/a/b'' (1::nat) new_Router))
     = Some (snd (RouteTrie_insert handler_truthy ''/a/b'' (Some 1) new_RouteTrie))"
    by (simp add: router_eval)
  have n: "RouteTrie_find ''/a'' (snd (RouteTrie_insert handler_truthy ''/a/b'' (Some (1::nat)) new_RouteTrie))
     \<noteq> None"
    by (simp add: router_eval)
  have f: "Router_find ''GET'' ''/a'' (snd (Router_map ''GET'' ''/a/b'' (1::nat) new_Router)) = Inr None"
    by (simp add: router_eval)
  from C7_not_found_is_not_an_error [OF t, of "''/a''" "UnsupportedMethod ''GET''" "''GET''"] t n f
  show ?thesis by auto
qed




text \<open>
  Claim C9. An insertion that throws leaves the trie as it was: the state after the call
  is the state before it, for \<^verbatim>\<open>RouteTrie.insert\<close> and for \<^verbatim>\<open>Router.map\<close>, so every lookup
  answers after the failed call what it answered before.
\<close>

theorem C9_failed_insertion_changes_nothing:
  "(fst (RouteTrie_insert tr p v t) = Inl e \<longrightarrow>
      snd (RouteTrie_insert tr p v t) = t \<and>
      RouteTrie_find q (snd (RouteTrie_insert tr p v t)) = RouteTrie_find q t) \<and>
   (fst (Router_map m p h r) = Inl e' \<longrightarrow>
      snd (Router_map m p h r) = r \<and>
      Router_find m' q (snd (Router_map m p h r)) = Router_find m' q r)"
  by (simp add: RouteTrie_insert_error_unchanged Router_map_error_unchanged)

theorem C9_failed_insertion_changes_nothing_witness:
  "fst (RouteTrie_insert handler_truthy ''/a/b'' (Some (2::nat))
          (snd (RouteTrie_insert handler_truthy ''/a/b'' (Some 1) new_RouteTrie)))
     = Inl (DuplicateRoute ''/a/b'') \<and>
   snd (RouteTrie_insert handler_truthy ''/a/b'' (Some (2::nat))
          (snd (RouteTrie_insert handler_truthy ''/a/b'' (Some 1) new_RouteTrie)))
     = snd (RouteTrie_insert handler_truthy ''/a/b'' (Some 1) new_RouteTrie) \<and>
   fst (Router_map ''GET'' ''/a/b'' (2::nat) (snd (Router_map ''GET'' ''/a/b'' 1 new_Router)))
     = Inl (DuplicateRoute ''/a/b'') \<and>
   snd (Router_map ''GET'' ''/a/b'' (2::nat) (snd (Router_map ''GET'' ''/a/b'' 1 new_Router)))
     = snd (Router_map ''GET'' ''/a/b'' 1 new_Router) \<and>
   Router_find ''GET'' ''/a/b''
        (snd (Router_map ''GET'' ''/a/b'' (2::nat) (snd (Router_map ''GET'' ''/a/b'' 1 new_Router))))
     = Router_find ''GET'' ''/a/b'' (snd (Router_map ''GET'' ''/a/b'' 1 new_Router))"
proof -
  have e1: "fst (RouteTrie_insert handler_truthy ''/a/b'' (Some (2::nat))
          (snd (RouteTrie_insert handler_truthy ''/a/b'' (Some 1) new_RouteTrie)))
     = Inl (DuplicateRoute ''/a/b'')"
    by (simp add: router_eval)
  have e2: "fst (Router_map ''GET'' ''/a/b'' (2::nat)
          (snd (Router_map ''GET'' ''/a/b'' 1 new_Router)))
     = Inl (DuplicateRoute ''/a/b'')"
    by (simp add: router_eval)
  from C9_failed_insertion_changes_nothing
    [where tr = handler_truthy and p = "''/a/b''" and v = "Some (2::nat)"
       and t = "snd (RouteTrie_insert handler_truthy ''/a/b'' (Some 1) new_RouteTrie)"
       and e = "DuplicateRoute ''/a/b''" and q = "''/a/b''" and m = "''GET''" and h = "2::nat"
       and r = "snd (Router_map ''GET'' ''/a/b'' 1 new_Router)"
       and e' = "DuplicateRoute ''/a/b''" and m' = "''GET''"] e1 e2
  show ?thesis by simp
qed

text \<open>
  Claim C10. An insertion without a value returns on a new trie. Where it returns, on a
  trie built by any insertions, the node its route ends at exists and holds no value, an
  insertion of a value at the same path returns, and \<^verbatim>\<open>Router.find\<close> on that path in a
  router holding this trie is not-found. The test is the truthiness of the stored value:
  after an insertion of a present but falsy value, a further insertion at the path
  returns as well.
\<close>

theorem C10_value_less_insert_registers_nothing:
  "fst (RouteTrie_insert tr p None new_RouteTrie) = Inr () \<and>
   (fst (RouteTrie_insert tr p None (RouteTrie_inserts tr calls new_RouteTrie)) = Inr () \<longrightarrow>
      (\<exists>n. locate (parts_of p)
              (root (snd (RouteTrie_insert tr p None (RouteTrie_inserts tr calls new_RouteTrie))))
             = Some n \<and> node_value n = None) \<and>
      fst (RouteTrie_insert tr p (Some v)
             (snd (RouteTrie_insert tr p None (RouteTrie_inserts tr calls new_RouteTrie))))
        = Inr () \<and>
      (trie_for m r
         = Some (snd (RouteTrie_insert tr p None (RouteTrie_inserts tr calls new_RouteTrie))) \<longrightarrow>
       Router_find m p r = Inr None)) \<and>
   (fst (RouteTrie_insert tr p (Some v) t) = Inr () \<and> \<not> tr v \<longrightarrow>
      fst (RouteTrie_insert tr p w (snd (RouteTrie_insert tr p (Some v) t))) = Inr ())"
proof -
  have 1: "fst (RouteTrie_insert tr p None new_RouteTrie) = Inr ()"
    by (simp add: fst_RouteTrie_insert new_RouteTrie_def insert_loop_fresh)
  define t0 where "t0 = RouteTrie_inserts tr calls new_RouteTrie"
  define t1 where "t1 = snd (RouteTrie_insert tr p None t0)"
  have wf: "no_dynamic_keys (root t1)"
    by (simp add: t1_def t0_def no_dynamic_keys_RouteTrie_insert no_dynamic_keys_RouteTrie_inserts)
  have 2: "(\<exists>n. locate (parts_of p) (root t1) = Some n \<and> node_value n = None) \<and>
      fst (RouteTrie_insert tr p (Some v) t1) = Inr () \<and>
      (trie_for m r = Some t1 \<longrightarrow> Router_find m p r = Inr None)"
    if "fst (RouteTrie_insert tr p None t0) = Inr ()"
  proof -
    from RouteTrie_insert_located [OF that]
    obtain n where n: "locate (parts_of p) (root t1) = Some n" "node_value n = None"
      by (auto simp add: t1_def)
    from n have "fst (RouteTrie_insert tr p (Some v) t1) = Inr ()"
      by (simp add: RouteTrie_insert_falsy)
    moreover have "Router_find m p r = Inr None" if "trie_for m r = Some t1"
      using that wf n by (rule Router_find_falsy)
    ultimately show ?thesis using n by blast
  qed
  have 3: "fst (RouteTrie_insert tr p w (snd (RouteTrie_insert tr p (Some v) t))) = Inr ()"
    if "fst (RouteTrie_insert tr p (Some v) t) = Inr ()" "\<not> tr v"
  proof -
    from RouteTrie_insert_located [OF that(1)] obtain n
      where "locate (parts_of p) (root (snd (RouteTrie_insert tr p (Some v) t))) = Some n"
        "node_value n = Some v" by blast
    with that(2) show ?thesis by (simp add: RouteTrie_insert_falsy)
  qed
  from 1 2 3 show ?thesis unfolding t1_def t0_def by blast
qed

theorem C10_value_less_insert_registers_nothing_witness:
  "fst (RouteTrie_insert handler_truthy ''/a/:x'' None
          (RouteTrie_inserts handler_truthy [(''/a'', Some (1::nat))] new_RouteTrie)) = Inr () \<and>
   fst (RouteTrie_insert handler_truthy ''/a/:x'' (Some 2)
          (snd (RouteTrie_insert handler_truthy ''/a/:x'' None
             (RouteTrie_inserts handler_truthy [(''/a'', Some (1::nat))] new_RouteTrie)))) = Inr () \<and>
   trie_for ''GET''
       \<lparr> routeMethodMap =
           [(''GET'', snd (RouteTrie_insert handler_truthy ''/a/:x'' None
                (RouteTrie_inserts handler_truthy [(''/a'', Some (1::nat))] new_RouteTrie)))] \<rparr>
     = Some (snd (RouteTrie_insert handler_truthy ''/a/:x'' None
                (RouteTrie_inserts handler_truthy [(''/a'', Some (1::nat))] new_RouteTrie))) \<and>
   Router_find ''GET'' ''/a/:x''
       \<lparr> routeMethodMap =
           [(''GET'', snd (RouteTrie_insert handler_truthy ''/a/:x'' None
                (RouteTrie_inserts handler_truthy [(''/a'', Some (1::nat))] new_RouteTrie)))] \<rparr>
     = Inr None \<and>
   fst (RouteTrie_insert (\<lambda>v. v \<noteq> 0) ''/z'' (Some (0::nat)) new_RouteTrie) = Inr () \<and>
   fst (RouteTrie_insert (\<lambda>v. v \<noteq> 0) ''/z'' (Some (7::nat))
          (snd (RouteTrie_insert (\<lambda>v. v \<noteq> 0) ''/z'' (Some 0) new_RouteTrie))) = Inr ()"
proof -
  let ?t0 = "RouteTrie_inserts handler_truthy [(''/a'', Some (1::nat))] new_RouteTrie"
  let ?t1 = "snd (RouteTrie_insert handler_truthy ''/a/:x'' None ?t0)"
  let ?r = "\<lparr> routeMethodMap = [(''GET'', ?t1)] \<rparr>"
  have a: "fst (RouteTrie_insert handler_truthy ''/a/:x'' None ?t0) = Inr ()"
    by (simp add: router_eval RouteTrie_inserts_def)
  have b: "trie_for ''GET'' ?r = Some ?t1"
    by (simp add: trie_for_def toUpperCase_def toUpperCase_char_def)
  have c: "fst (RouteTrie_insert (\<lambda>v. v \<noteq> 0) ''/z'' (Some (0::nat)) new_RouteTrie) = Inr ()"
    by (simp add: router_eval)
  have d: "\<not> (\<lambda>v. v \<noteq> (0::nat)) 0" by simp
  have g1: "fst (RouteTrie_insert handler_truthy ''/a/:x'' (Some 2) ?t1) = Inr () \<and>
      Router_find ''GET'' ''/a/:x'' ?r = Inr None"
    using C10_value_less_insert_registers_nothing
      [where tr = handler_truthy and p = "''/a/:x''" and calls = "[(''/a'', Some (1::nat))]"
         and v = 2 and m = "''GET''" and r = ?r] a b
    by blast
  have g2: "fst (RouteTrie_insert (\<lambda>v. v \<noteq> 0) ''/z'' (Some (7::nat))
          (snd (RouteTrie_insert (\<lambda>v. v \<noteq> 0) ''/z'' (Some 0) new_RouteTrie))) = Inr ()"
    using C10_value_less_insert_registers_nothing
      [where tr = "\<lambda>v. v \<noteq> (0::nat)" and p = "''/z''" and v = 0 and t = new_RouteTrie
         and w = "Some 7"] c d
    by blast
  from a b c g1 g2 show ?thesis by blast
qed

end
